theory Spec2Isabelle
  imports Complex_Main "HOL-Library.Log_Nat" "HOL-Library.Multiset"
begin

section \<open>SumGame: the grid generator and the game-state machine\<close>

text \<open>
  A shallow embedding of \<^verbatim>\<open>src/types.ts\<close>, \<^verbatim>\<open>src/utils/gameLogic.ts\<close> and the
  state transitions of \<^verbatim>\<open>src/App.tsx\<close> (\<^verbatim>\<open>initGame\<close>, \<^verbatim>\<open>handleBlockClick\<close> and the
  timer effect).

  Conventions of the model:
  \<^item> JavaScript numbers that only ever hold integers (block values, rows, columns, score,
    level, combo, target sum) are \<open>int\<close> or \<open>nat\<close>; this is exact below \<open>2^53\<close>.
  \<^item> Numbers that hold fractions (\<^verbatim>\<open>Math.random()\<close>, \<^verbatim>\<open>timeLeft\<close>) are rationals, and every
    arithmetic operation on them rounds to the nearest IEEE-754 double (\<open>fl\<close> below).
  \<^item> \<^verbatim>\<open>Math.random()\<close> reads an explicit sequence of draws, threaded through every function
    that draws from it.
  \<^item> A \<^verbatim>\<open>TypeError\<close> (reading a cell of a row the grid does not have) is the result \<open>None\<close>.
\<close>

subsection \<open>types.ts\<close>

datatype GameMode = Classic | Time

record Block =
  id_b :: string
  value_b :: int
  row_b :: nat
  col_b :: nat
  isRemoving :: "bool option"

type_synonym cell = "Block option"
type_synonym grid = "cell list list"

record GameState =
  grid :: grid
  targetSum :: int
  selectedIds :: "string list"
  score :: int
  highScore :: int
  isGameOver :: bool
  mode :: GameMode
  level :: int
  combo :: int
  timeLeft :: "rat option"
  maxTime :: "rat option"

definition GRID_ROWS :: nat where "GRID_ROWS = 10"
definition GRID_COLS :: nat where "GRID_COLS = 6"
definition INITIAL_ROWS :: nat where "INITIAL_ROWS = 4"
definition MAX_VALUE :: int where "MAX_VALUE = 9"
definition MIN_VALUE :: int where "MIN_VALUE = 1"

subsection \<open>IEEE-754 double arithmetic\<close>

text \<open>
  \<open>expo x\<close> is the binary exponent of a positive \<open>x\<close>: \<open>2^e \<le> x < 2^(e+1)\<close>. \<open>ulp x\<close> is
  the spacing of the doubles around \<open>x\<close> (52 fraction bits, subnormal below \<open>2^-1022\<close>), and
  \<open>fl x\<close> is the double nearest to \<open>x\<close>, ties to the even significand. Overflow to
  \<^verbatim>\<open>Infinity\<close>, \<^verbatim>\<open>NaN\<close> and the sign of zero are outside the model; no number of this program
  comes near them.
\<close>

definition expo :: "rat \<Rightarrow> int" where
  "expo x = (if 1 \<le> x then bitlen \<lfloor>x\<rfloor> - 1 else - bitlen (\<lceil>1 / x\<rceil> - 1))"

definition ulp :: "rat \<Rightarrow> rat" where
  "ulp x = 2 powi (max (expo x) (- 1022) - 52)"

definition roundHalfEven :: "rat \<Rightarrow> int" where
  "roundHalfEven z =
     (let f = \<lfloor>z\<rfloor>; d = z - of_int f
      in if d < 1 / 2 then f else if 1 / 2 < d then f + 1 else if even f then f else f + 1)"

definition fl :: "rat \<Rightarrow> rat" where
  "fl x = (if x = 0 then 0
           else if 0 < x then of_int (roundHalfEven (x / ulp x)) * ulp x
           else - (of_int (roundHalfEven (- x / ulp (- x))) * ulp (- x)))"

definition fsub :: "rat \<Rightarrow> rat \<Rightarrow> rat" where
  "fsub a b = fl (a - b)"

definition fmul :: "rat \<Rightarrow> rat \<Rightarrow> rat" where
  "fmul a b = fl (a * b)"

subsection \<open>The JavaScript engine\<close>

text \<open>
  What the program asks of the engine it runs on: the values \<^verbatim>\<open>Math.random()\<close> is going to
  return, in order, and \<^verbatim>\<open>Number.prototype.toString(36)\<close>, whose digits the language
  standard leaves to the implementation. A draw is a double in \<open>[0, 1)\<close>, so it is at most
  \<open>1 - 2^-53\<close>, the largest double below one.
\<close>

record engine =
  draws :: "nat \<Rightarrow> rat"
  toString36 :: "rat \<Rightarrow> string"

definition random :: "engine \<Rightarrow> rat \<times> engine" where
  "random r = (draws r 0, r\<lparr>draws := \<lambda>n. draws r (Suc n)\<rparr>)"

definition validDraw :: "rat \<Rightarrow> bool" where
  "validDraw u \<longleftrightarrow> 0 \<le> u \<and> u \<le> 1 - 1 / 2 ^ 53"

subsection \<open>gameLogic.ts\<close>

text \<open>\<^verbatim>\<open>Math.random().toString(36).substring(2, 9)\<close>\<close>

definition substring :: "nat \<Rightarrow> nat \<Rightarrow> string \<Rightarrow> string" where
  "substring i j s = take (j - i) (drop i s)"

definition generateId :: "engine \<Rightarrow> string \<times> engine" where
  "generateId r = (let (u, r1) = random r in (substring 2 9 (toString36 r u), r1))"

text \<open>
  \<^verbatim>\<open>createBlock(row, col, value?)\<close>: the id is drawn first; the value is drawn only when the
  argument is omitted (\<^verbatim>\<open>??\<close> does not evaluate its right side otherwise).
\<close>

definition createBlock :: "nat \<Rightarrow> nat \<Rightarrow> int option \<Rightarrow> engine \<Rightarrow> Block \<times> engine" where
  "createBlock row col val r =
     (let (i, r1) = generateId r;
          (v, r2) = (case val of
                       Some v \<Rightarrow> (v, r1)
                     | None \<Rightarrow> (let (u, r2) = random r1
                                in (\<lfloor>fmul u (of_int (MAX_VALUE - MIN_VALUE + 1))\<rfloor> + MIN_VALUE, r2)))
      in (\<lparr>id_b = i, value_b = v, row_b = row, col_b = col, isRemoving = None\<rparr>, r2))"

definition createEmptyGrid :: grid where
  "createEmptyGrid = replicate GRID_ROWS (replicate GRID_COLS None)"

text \<open>\<^verbatim>\<open>Array.from({length: GRID_COLS}, (_, colIndex) => createBlock(rowIndex, colIndex))\<close>\<close>

fun generateCells :: "nat \<Rightarrow> nat list \<Rightarrow> engine \<Rightarrow> cell list \<times> engine" where
  "generateCells rowIndex [] r = ([], r)"
| "generateCells rowIndex (colIndex # cols) r =
     (let (b, r1) = createBlock rowIndex colIndex None r;
          (bs, r2) = generateCells rowIndex cols r1
      in (Some b # bs, r2))"

definition generateRow :: "nat \<Rightarrow> engine \<Rightarrow> cell list \<times> engine" where
  "generateRow rowIndex r = generateCells rowIndex [0..<GRID_COLS] r"

definition getTargetSum :: "int \<Rightarrow> engine \<Rightarrow> int \<times> engine" where
  "getTargetSum lvl r =
     (let base = 10; variance = min lvl 10; (u, r1) = random r
      in (base + \<lfloor>fmul u (of_int variance)\<rfloor>, r1))"

text \<open>\<^verbatim>\<open>grid[0].some(cell => cell !== null)\<close>; a grid with no row 0 throws.\<close>

definition checkGameOver :: "grid \<Rightarrow> bool option" where
  "checkGameOver g = (case g of [] \<Rightarrow> None | row0 # _ \<Rightarrow> Some (list_ex (\<lambda>c. c \<noteq> None) row0))"

text \<open>
  \<^verbatim>\<open>grid[row][col]\<close> for a row the grid has: a column past the end of the row reads
  \<^verbatim>\<open>undefined\<close>, which the callers' truth tests treat as an empty cell.
\<close>

definition cellAt :: "grid \<Rightarrow> nat \<Rightarrow> nat \<Rightarrow> cell" where
  "cellAt g row col = (if col < length (g ! row) then g ! row ! col else None)"

text \<open>\<^verbatim>\<open>newGrid[row][col] = v\<close>, on the fresh grid of \<open>createEmptyGrid\<close>, always in range.\<close>

definition setCell :: "grid \<Rightarrow> nat \<Rightarrow> nat \<Rightarrow> cell \<Rightarrow> grid" where
  "setCell g row col v = g[row := (g ! row)[col := v]]"

text \<open>
  The inner loop of \<open>applyGravity\<close>, \<^verbatim>\<open>for (row = GRID_ROWS - 1; row >= 0; row--)\<close>, with
  \<open>Suc row\<close> rows still to scan. After the tenth block of a full column the source leaves
  \<^verbatim>\<open>targetRow\<close> at \<open>-1\<close> and the loop ends; the natural number stays at 0, equally unused.
\<close>

fun gravityRows :: "grid \<Rightarrow> nat \<Rightarrow> nat \<Rightarrow> nat \<Rightarrow> grid \<Rightarrow> grid" where
  "gravityRows g col 0 targetRow newGrid = newGrid"
| "gravityRows g col (Suc row) targetRow newGrid =
     (case cellAt g row col of
        Some b \<Rightarrow> gravityRows g col row (targetRow - 1)
                    (setCell newGrid targetRow col (Some (b\<lparr>row_b := targetRow, col_b := col\<rparr>)))
      | None \<Rightarrow> gravityRows g col row targetRow newGrid)"

text \<open>
  The first cell read is \<^verbatim>\<open>grid[GRID_ROWS - 1][0]\<close>, so a grid with fewer than \<open>GRID_ROWS\<close>
  rows throws before anything else happens.
\<close>

definition applyGravity :: "grid \<Rightarrow> grid option" where
  "applyGravity g =
     (if length g < GRID_ROWS then None
      else Some (fold (\<lambda>col newGrid. gravityRows g col GRID_ROWS (GRID_ROWS - 1) newGrid)
                   [0..<GRID_COLS] createEmptyGrid))"

text \<open>
  \<open>shiftUp\<close> reads rows \<open>1 .. GRID_ROWS - 1\<close> before it generates the bottom row, so a grid
  with fewer than \<open>GRID_ROWS\<close> rows throws before any draw.
\<close>

definition shiftUp :: "engine \<Rightarrow> grid \<Rightarrow> (grid \<times> engine) option" where
  "shiftUp r g =
     (if length g < GRID_ROWS then None
      else
        (let moved =
               fold (\<lambda>row newGrid.
                  fold (\<lambda>col newGrid.
                     (case cellAt g row col of
                        Some b \<Rightarrow> setCell newGrid (row - 1) col
                                    (Some (b\<lparr>row_b := row - 1, col_b := col\<rparr>))
                      | None \<Rightarrow> newGrid))
                    [0..<GRID_COLS] newGrid)
                 [1..<GRID_ROWS] createEmptyGrid;
             (bottomRow, r1) = generateRow (GRID_ROWS - 1) r
         in Some (fold (\<lambda>col newGrid. setCell newGrid (GRID_ROWS - 1) col (bottomRow ! col))
                    [0..<GRID_COLS] moved, r1)))"

subsection \<open>App.tsx: initGame\<close>

text \<open>
  The stored high score is the collaborator's: \<open>None\<close> when \<^verbatim>\<open>localStorage\<close> holds nothing
  (or the empty string), otherwise the integer \<^verbatim>\<open>parseInt\<close> reads.
\<close>

definition nextMaxTime :: "int \<Rightarrow> rat" where
  "nextMaxTime lvl = of_int (max 5 (10 - lvl div 2))"

definition initGame :: "GameMode \<Rightarrow> int option \<Rightarrow> engine \<Rightarrow> GameState \<times> engine" where
  "initGame m savedHighScore r =
     (let (g, r1) =
            fold (\<lambda>i (g, r).
               (let rowIdx = GRID_ROWS - 1 - i;
                    (newRow, r') = generateRow rowIdx r
                in (fold (\<lambda>j g. setCell g rowIdx j (newRow ! j)) [0..<GRID_COLS] g, r')))
              [0..<INITIAL_ROWS] (createEmptyGrid, r);
          (t, r2) = getTargetSum 1 r1
      in (\<lparr>grid = g,
           targetSum = t,
           selectedIds = [],
           score = 0,
           highScore = (case savedHighScore of Some h \<Rightarrow> h | None \<Rightarrow> 0),
           isGameOver = False,
           mode = m,
           level = 1,
           combo = 0,
           timeLeft = (if m = Time then Some 10 else None),
           maxTime = (if m = Time then Some 10 else None)\<rparr>, r2))"

subsection \<open>App.tsx: handleBlockClick\<close>

text \<open>\<^verbatim>\<open>row.find(b => b?.id === id)\<close>, and the loop over the rows around it.\<close>

definition findInRow :: "string \<Rightarrow> cell list \<Rightarrow> cell" where
  "findInRow i row =
     (case find (\<lambda>c. case c of Some b \<Rightarrow> id_b b = i | None \<Rightarrow> False) row of
        Some found \<Rightarrow> found
      | None \<Rightarrow> None)"

fun findBlock :: "string \<Rightarrow> grid \<Rightarrow> cell" where
  "findBlock i [] = None"
| "findBlock i (row # rows) =
     (case findInRow i row of Some found \<Rightarrow> Some found | None \<Rightarrow> findBlock i rows)"

definition toggleId :: "string \<Rightarrow> string list \<Rightarrow> string list" where
  "toggleId i ids = (if i \<in> set ids then filter (\<lambda>j. j \<noteq> i) ids else ids @ [i])"

definition selectedBlocks :: "grid \<Rightarrow> string list \<Rightarrow> Block list" where
  "selectedBlocks g ids = map the (filter (\<lambda>c. c \<noteq> None) (map (\<lambda>i. findBlock i g) ids))"

definition currentSum :: "Block list \<Rightarrow> int" where
  "currentSum bs = foldl (\<lambda>acc b. acc + value_b b) 0 bs"

definition removeSelected :: "string list \<Rightarrow> grid \<Rightarrow> grid" where
  "removeSelected ids g =
     map (map (\<lambda>c. case c of
                      Some b \<Rightarrow> if id_b b \<in> set ids then None else c
                    | None \<Rightarrow> c)) g"

text \<open>
  Lines 107-117: the row a classic game adds after a success. The result is the final
  grid, the game-over flag and the engine after the draws of \<open>shiftUp\<close>.
\<close>

definition addRowAfterSuccess ::
  "GameMode \<Rightarrow> engine \<Rightarrow> grid \<Rightarrow> (grid \<times> bool \<times> engine) option" where
  "addRowAfterSuccess m r gravityGrid =
     (if m = Classic then
        (case checkGameOver gravityGrid of
           None \<Rightarrow> None
         | Some True \<Rightarrow> Some (gravityGrid, True, r)
         | Some False \<Rightarrow>
             (case shiftUp r gravityGrid of
                None \<Rightarrow> None
              | Some (finalGrid, r1) \<Rightarrow>
                  (case checkGameOver finalGrid of
                     None \<Rightarrow> None
                   | Some gameOver \<Rightarrow> Some (finalGrid, gameOver, r1))))
      else Some (gravityGrid, False, r))"

text \<open>
  Lines 100-138, the branch \<^verbatim>\<open>currentSum === prev.targetSum\<close>. The write of a new high
  score to \<^verbatim>\<open>localStorage\<close> is the collaborator's and leaves the state alone.
\<close>

definition success :: "engine \<Rightarrow> GameState \<Rightarrow> string list \<Rightarrow> (GameState \<times> engine) option" where
  "success r prev newSelectedIds =
     (let newGrid = removeSelected newSelectedIds (grid prev)
      in case applyGravity newGrid of
           None \<Rightarrow> None
         | Some gravityGrid \<Rightarrow>
             (case addRowAfterSuccess (mode prev) r gravityGrid of
                None \<Rightarrow> None
              | Some (finalGrid, gameOver, r1) \<Rightarrow>
                  (let points = targetSum prev * int (length newSelectedIds) * (combo prev + 1);
                       newScore = score prev + points;
                       newHighScore = max newScore (highScore prev);
                       (t, r2) = getTargetSum (level prev) r1
                   in Some (prev\<lparr>grid := finalGrid,
                                  selectedIds := [],
                                  targetSum := t,
                                  score := newScore,
                                  highScore := newHighScore,
                                  isGameOver := gameOver,
                                  combo := combo prev + 1,
                                  level := newScore div 1000 + 1,
                                  timeLeft := (if mode prev = Time
                                               then Some (nextMaxTime (level prev)) else None),
                                  maxTime := (if mode prev = Time
                                              then Some (nextMaxTime (level prev)) else None)\<rparr>,
                            r2))))"

text \<open>
  \<open>isPaused\<close> is the component's own flag, not a field of the game state. The click
  carries the block that was clicked; only its id is read.
\<close>

definition handleBlockClick ::
  "bool \<Rightarrow> engine \<Rightarrow> GameState \<Rightarrow> Block \<Rightarrow> (GameState \<times> engine) option" where
  "handleBlockClick isPaused r prev block =
     (if isGameOver prev \<or> isPaused then Some (prev, r)
      else
        (let newSelectedIds = toggleId (id_b block) (selectedIds prev);
             total = currentSum (selectedBlocks (grid prev) newSelectedIds)
         in if total = targetSum prev then success r prev newSelectedIds
            else if targetSum prev < total then Some (prev\<lparr>selectedIds := [], combo := 0\<rparr>, r)
            else Some (prev\<lparr>selectedIds := newSelectedIds\<rparr>, r)))"

subsection \<open>App.tsx: the timer\<close>

text \<open>
  Lines 159-185, the update the interval applies every 100 ms. The literal \<^verbatim>\<open>0.1\<close> is the
  double nearest to one tenth.
\<close>

definition tickUpdate :: "engine \<Rightarrow> GameState \<Rightarrow> (GameState \<times> engine) option" where
  "tickUpdate r prev =
     (case timeLeft prev of
        None \<Rightarrow> Some (prev, r)
      | Some t \<Rightarrow>
          if t \<le> 0 then
            (case checkGameOver (grid prev) of
               None \<Rightarrow> None
             | Some True \<Rightarrow> Some (prev\<lparr>isGameOver := True\<rparr>, r)
             | Some False \<Rightarrow>
                 (case shiftUp r (grid prev) of
                    None \<Rightarrow> None
                  | Some (newGrid, r1) \<Rightarrow>
                      (case checkGameOver newGrid of
                         None \<Rightarrow> None
                       | Some gameOver \<Rightarrow>
                           Some (prev\<lparr>grid := newGrid,
                                      timeLeft := Some (nextMaxTime (level prev)),
                                      maxTime := Some (nextMaxTime (level prev)),
                                      isGameOver := gameOver,
                                      combo := 0,
                                      selectedIds := []\<rparr>, r1))))
          else Some (prev\<lparr>timeLeft := Some (fsub t (fl (1 / 10)))\<rparr>, r))"


subsection \<open>Notions of the specification, and concrete inputs\<close>

definition wellShaped :: "grid \<Rightarrow> bool" where
  "wellShaped g \<longleftrightarrow> map length g = replicate GRID_ROWS GRID_COLS"

text \<open>
  The events the component reacts to: a click on a block, with the value \<open>isPaused\<close> has
  when it arrives, and a callback of the interval, which applies the timer update to the
  current state. A run of the game is a sequence of events over one sequence of draws.
\<close>

datatype event = BlockClicked bool Block | TimerTick

fun step :: "event \<Rightarrow> engine \<Rightarrow> GameState \<Rightarrow> (GameState \<times> engine) option" where
  "step (BlockClicked isPaused b) r s = handleBlockClick isPaused r s b"
| "step TimerTick r s = tickUpdate r s"

fun run :: "event list \<Rightarrow> GameState \<times> engine \<Rightarrow> (GameState \<times> engine) option" where
  "run [] sr = Some sr"
| "run (e # es) (s, r) = (case step e r s of None \<Rightarrow> None | Some sr' \<Rightarrow> run es sr')"

text \<open>
  An event forces a row when it is a tick that reaches the call of \<open>shiftUp\<close> in the timer
  update: \<open>timeLeft\<close> is present and at most 0, and row 0 is free. \<open>injections\<close> counts these
  events along a run.
\<close>

fun forcesRow :: "event \<Rightarrow> GameState \<Rightarrow> bool" where
  "forcesRow (BlockClicked isPaused b) s = False"
| "forcesRow TimerTick s =
     (case timeLeft s of
        None \<Rightarrow> False
      | Some t \<Rightarrow> t \<le> 0 \<and> checkGameOver (grid s) = Some False)"

fun injections :: "event list \<Rightarrow> GameState \<times> engine \<Rightarrow> nat" where
  "injections [] sr = 0"
| "injections (e # es) (s, r) =
     (if forcesRow e s then 1 else 0) +
     (case step e r s of None \<Rightarrow> 0 | Some sr' \<Rightarrow> injections es sr')"

text \<open>
  \<open>countdown n t\<close> is \<open>timeLeft\<close> after \<open>n\<close> ticks that each found it positive and
  subtracted \<^verbatim>\<open>0.1\<close>; \<open>None\<close> when one of them found it at most 0.
\<close>

fun countdown :: "nat \<Rightarrow> rat \<Rightarrow> rat option" where
  "countdown 0 t = Some t"
| "countdown (Suc n) t = (if t \<le> 0 then None else countdown n (fsub t (fl (1 / 10))))"

text \<open>
  The component attaches the click handler to the blocks it renders from the grid: in a
  run of the game every clicked block is on the grid when it is clicked.
\<close>

fun clicksOnGrid :: "event list \<Rightarrow> GameState \<times> engine \<Rightarrow> bool" where
  "clicksOnGrid [] sr = True"
| "clicksOnGrid (e # es) (s, r) =
     ((case e of BlockClicked isPaused b \<Rightarrow> findBlock (id_b b) (grid s) \<noteq> None | TimerTick \<Rightarrow> True)
      \<and> (case step e r s of None \<Rightarrow> True | Some sr' \<Rightarrow> clicksOnGrid es sr'))"

text \<open>Every selected id is the id of a block on the grid.\<close>

definition selectionResolves :: "GameState \<Rightarrow> bool" where
  "selectionResolves s \<longleftrightarrow> list_all (\<lambda>i. findBlock i (grid s) \<noteq> None) (selectedIds s)"

text \<open>
  The blocks of a grid in reading order, the ids and values it holds (as a multiset), the
  blocks of one column in rows \<open>0 ..< n\<close> from the top down, and the cell that gravity
  leaves at a position: with \<open>k\<close> blocks in the column, the lowest \<open>k\<close> rows hold them in
  their old order, stamped with their new row and column. \<open>gravitySpec\<close> is the grid of
  these cells.
\<close>

definition blocksOf :: "grid \<Rightarrow> Block list" where
  "blocksOf g = concat (map (\<lambda>row. map the (filter (\<lambda>c. c \<noteq> None) row)) g)"

definition idsAndValues :: "grid \<Rightarrow> (string \<times> int) multiset" where
  "idsAndValues g = mset (map (\<lambda>b. (id_b b, value_b b)) (blocksOf g))"

fun colBlocks :: "grid \<Rightarrow> nat \<Rightarrow> nat \<Rightarrow> Block list" where
  "colBlocks g col 0 = []"
| "colBlocks g col (Suc row) =
     colBlocks g col row @ (case cellAt g row col of Some b \<Rightarrow> [b] | None \<Rightarrow> [])"

definition gravityCell :: "grid \<Rightarrow> nat \<Rightarrow> nat \<Rightarrow> cell" where
  "gravityCell g row col =
     (let bs = colBlocks g col GRID_ROWS; k = length bs
      in if GRID_ROWS \<le> row + k
         then Some ((bs ! (row + k - GRID_ROWS))\<lparr>row_b := row, col_b := col\<rparr>)
         else None)"

definition gravitySpec :: "grid \<Rightarrow> grid" where
  "gravitySpec g = map (\<lambda>r. map (\<lambda>c. gravityCell g r c) [0..<GRID_COLS]) [0..<GRID_ROWS]"

text \<open>
  \<open>applyGravity\<close> once more, with the arrays in a store, to see which arrays it writes. A
  store is the list of the row arrays allocated so far, a row's address is its index, and a
  grid is the list of the addresses of its rows. \<open>createEmptyGrid\<close> allocates \<open>GRID_ROWS\<close>
  new rows at the end of the store; the loops read the input through its addresses and
  write through the addresses of the new grid. Blocks stay values: the source never assigns
  to a field of a block, it copies it (\<^verbatim>\<open>{...b, row, col}\<close>).
\<close>

type_synonym store = "cell list list"
type_synonym gridRef = "nat list"

definition readGrid :: "store \<Rightarrow> gridRef \<Rightarrow> grid" where
  "readGrid st refs = map (\<lambda>a. st ! a) refs"

definition createEmptyGrid_st :: "store \<Rightarrow> gridRef \<times> store" where
  "createEmptyGrid_st st =
     ([length st..<length st + GRID_ROWS], st @ replicate GRID_ROWS (replicate GRID_COLS None))"

fun gravityRows_st :: "gridRef \<Rightarrow> nat \<Rightarrow> nat \<Rightarrow> nat \<Rightarrow> gridRef \<Rightarrow> store \<Rightarrow> store" where
  "gravityRows_st g col 0 targetRow newGrid st = st"
| "gravityRows_st g col (Suc row) targetRow newGrid st =
     (case cellAt st (g ! row) col of
        Some b \<Rightarrow> gravityRows_st g col row (targetRow - 1) newGrid
                    (setCell st (newGrid ! targetRow) col
                       (Some (b\<lparr>row_b := targetRow, col_b := col\<rparr>)))
      | None \<Rightarrow> gravityRows_st g col row targetRow newGrid st)"

definition applyGravity_st :: "store \<Rightarrow> gridRef \<Rightarrow> (gridRef \<times> store) option" where
  "applyGravity_st st g =
     (if length g < GRID_ROWS then None
      else (let (newGrid, st0) = createEmptyGrid_st st
            in Some (newGrid,
                     fold (\<lambda>col st'. gravityRows_st g col GRID_ROWS (GRID_ROWS - 1) newGrid st')
                       [0..<GRID_COLS] st0)))"

text \<open>
  Three facts about a state of play: the engine returns draws of \<open>[0, 1)\<close> only; no block
  on the grid has a negative value; and a selection that is not empty sums to less than
  the target.
\<close>

definition validEngine :: "engine \<Rightarrow> bool" where
  "validEngine r \<longleftrightarrow> (\<forall>n. validDraw (draws r n))"

definition cellOk :: "cell \<Rightarrow> bool" where
  "cellOk c = (case c of None \<Rightarrow> True | Some b \<Rightarrow> 0 \<le> value_b b)"

definition valuesNonneg :: "grid \<Rightarrow> bool" where
  "valuesNonneg g = list_all (list_all cellOk) g"

definition belowTarget :: "GameState \<Rightarrow> bool" where
  "belowTarget s \<longleftrightarrow>
     selectedIds s = [] \<or> currentSum (selectedBlocks (grid s) (selectedIds s)) < targetSum s"

text \<open>Concrete inputs for the examples: blocks, two grids, a state.\<close>

definition mkBlock :: "string \<Rightarrow> int \<Rightarrow> nat \<Rightarrow> nat \<Rightarrow> Block" where
  "mkBlock i v row col = \<lparr>id_b = i, value_b = v, row_b = row, col_b = col, isRemoving = None\<rparr>"

definition demoGrid :: grid where
  "demoGrid = replicate 9 (replicate 6 None) @
     [[Some (mkBlock ''a'' 4 9 0), Some (mkBlock ''b'' 6 9 1), Some (mkBlock ''c'' 3 9 2),
       Some (mkBlock ''d'' 8 9 3), None, None]]"

definition demoState :: "GameMode \<Rightarrow> string list \<Rightarrow> GameState" where
  "demoState m ids =
     \<lparr>grid = demoGrid, targetSum = 10, selectedIds = ids, score = 0, highScore = 0,
      isGameOver = False, mode = m, level = 1, combo = 0,
      timeLeft = (if m = Time then Some 10 else None),
      maxTime = (if m = Time then Some 10 else None)\<rparr>"

text \<open>
  A concrete engine for the examples: it returns the listed draws, then zeros, and writes a
  number of \<open>[0, 1)\<close> in plain positional base-36 notation, \<^verbatim>\<open>"0"\<close> for zero and otherwise
  \<^verbatim>\<open>"0."\<close> and the digits of the fraction until nothing is left (a double needs at most 537).
\<close>

definition digit36 :: "int \<Rightarrow> char" where
  "digit36 d = ''0123456789abcdefghijklmnopqrstuvwxyz'' ! nat d"

fun fracDigits36 :: "nat \<Rightarrow> rat \<Rightarrow> string" where
  "fracDigits36 0 f = []"
| "fracDigits36 (Suc n) f =
     (if f = 0 then []
      else (let d = \<lfloor>f * 36\<rfloor> in digit36 d # fracDigits36 n (f * 36 - of_int d)))"

definition positional36 :: "rat \<Rightarrow> string" where
  "positional36 u = (if u = 0 then ''0'' else ''0.'' @ fracDigits36 537 u)"

definition drawsFrom :: "rat list \<Rightarrow> engine" where
  "drawsFrom us = \<lparr>draws = (\<lambda>n. if n < length us then us ! n else 0), toString36 = positional36\<rparr>"

definition looseGrid :: grid where
  "looseGrid =
     [replicate 6 None, replicate 6 None,
      [Some (mkBlock ''a'' 4 2 0), None, None, None, None, None],
      replicate 6 None, replicate 6 None,
      [Some (mkBlock ''b'' 6 5 0), None, Some (mkBlock ''c'' 3 5 2), None, None, None],
      replicate 6 None, replicate 6 None, replicate 6 None,
      [None, None, Some (mkBlock ''d'' 8 9 2), None, None, None]]"

section \<open>Properties\<close>

subsection \<open>Evaluating double arithmetic on numerals\<close>

lemma bitlen_numeral_step: "bitlen (numeral w) = bitlen (numeral w div 2) + 1"
  by (subst compute_bitlen) simp

lemma bitlen_one: "bitlen 1 = 1"
  by (subst compute_bitlen) simp

lemma floor_rat_numeral_div: "\<lfloor>(numeral a :: rat) / numeral b\<rfloor> = numeral a div numeral b"
  using floor_divide_of_int_eq [of "numeral a" "numeral b", where ?'a = rat] by simp

lemma floor_rat_neg_numeral_div:
  "\<lfloor>- ((numeral a :: rat) / numeral b)\<rfloor> = - numeral a div numeral b"
  using floor_divide_of_int_eq [of "- numeral a" "numeral b", where ?'a = rat] by simp

lemma ceiling_rat_numeral_div:
  "\<lceil>(numeral a :: rat) / numeral b\<rceil> = - (- numeral a div numeral b)"
  using floor_rat_neg_numeral_div [of a b] by (simp add: ceiling_def)

lemmas fl_eval = fl_def ulp_def expo_def roundHalfEven_def Let_def fsub_def fmul_def
  bitlen_numeral_step bitlen_one floor_rat_numeral_div floor_rat_neg_numeral_div
  ceiling_rat_numeral_div

lemma fl_tenth: "fl (1 / 10) = 3602879701896397 / 36028797018963968"
  by (simp add: fl_eval)


subsection \<open>The shape of the grid\<close>

lemma wellShaped_length: "wellShaped g \<Longrightarrow> length g = GRID_ROWS"
  unfolding wellShaped_def by (metis length_map length_replicate)

lemma wellShaped_row: "wellShaped g \<Longrightarrow> row < GRID_ROWS \<Longrightarrow> length (g ! row) = GRID_COLS"
proof -
  assume w: "wellShaped g" and r: "row < GRID_ROWS"
  have "length (g ! row) = map length g ! row"
    using w r by (simp add: wellShaped_length)
  also have "\<dots> = GRID_COLS"
    using w r by (simp add: wellShaped_def)
  finally show ?thesis .
qed

lemma wellShaped_rows: "wellShaped g \<Longrightarrow> row \<in> set g \<Longrightarrow> length row = GRID_COLS"
  by (metis in_set_conv_nth wellShaped_length wellShaped_row)

lemma shape_setCell: "map length (setCell g row col v) = map length g"
proof (cases "row < length g")
  case True
  then show ?thesis
    by (simp add: setCell_def map_update list_eq_iff_nth_eq nth_list_update)
next
  case False
  then show ?thesis by (simp add: setCell_def list_update_beyond)
qed

lemma shape_gravityRows: "map length (gravityRows g col n t newGrid) = map length newGrid"
  by (induction n arbitrary: t newGrid) (auto simp: shape_setCell split: option.splits)

lemma shape_fold:
  assumes "\<And>x h. map length (f x h) = map length h"
  shows "map length (fold f xs h) = map length h"
  using assms by (induction xs arbitrary: h) auto

lemma wellShaped_createEmptyGrid: "wellShaped createEmptyGrid"
  by (simp add: wellShaped_def createEmptyGrid_def)

lemma wellShaped_applyGravity: "applyGravity g = Some g' \<Longrightarrow> wellShaped g'"
  using wellShaped_createEmptyGrid
  by (auto simp: applyGravity_def wellShaped_def shape_fold shape_gravityRows split: if_splits)

lemma applyGravity_defined: "GRID_ROWS \<le> length g \<Longrightarrow> \<exists>g'. applyGravity g = Some g'"
  by (simp add: applyGravity_def)

lemma wellShaped_shiftUp: "shiftUp r g = Some (g', r') \<Longrightarrow> wellShaped g'"
proof -
  assume a: "shiftUp r g = Some (g', r')"
  have cellstep: "\<And>row col h. map length (case cellAt g row col of
                        Some b \<Rightarrow> setCell h (row - 1) col
                                    (Some (b\<lparr>row_b := row - 1, col_b := col\<rparr>))
                      | None \<Rightarrow> h) = map length h"
    by (simp add: shape_setCell split: option.splits)
  from a show ?thesis
    using wellShaped_createEmptyGrid
    by (auto simp: shiftUp_def wellShaped_def Let_def shape_fold shape_setCell cellstep
        split: if_splits prod.splits)
qed

lemma shiftUp_defined: "GRID_ROWS \<le> length g \<Longrightarrow> \<exists>g' r'. shiftUp r g = Some (g', r')"
  by (simp add: shiftUp_def Let_def split: prod.splits)

lemma checkGameOver_defined: "wellShaped g \<Longrightarrow> \<exists>over. checkGameOver g = Some over"
  by (cases g) (auto simp: checkGameOver_def wellShaped_def GRID_ROWS_def)

lemma shape_removeSelected: "map length (removeSelected ids g) = map length g"
  by (simp add: removeSelected_def)

lemma wellShaped_removeSelected: "wellShaped g \<Longrightarrow> wellShaped (removeSelected ids g)"
  by (simp add: wellShaped_def shape_removeSelected)

lemma addRowAfterSuccess_defined:
  assumes "wellShaped g"
  shows "\<exists>finalGrid over r1. addRowAfterSuccess m r g = Some (finalGrid, over, r1) \<and> wellShaped finalGrid"
proof (cases "m = Classic")
  case False
  then show ?thesis using assms by (auto simp: addRowAfterSuccess_def)
next
  case True
  obtain over where o: "checkGameOver g = Some over"
    using checkGameOver_defined [OF assms] by blast
  show ?thesis
  proof (cases over)
    case True
    with o \<open>m = Classic\<close> assms show ?thesis by (auto simp: addRowAfterSuccess_def)
  next
    case False
    obtain g2 r1 where s: "shiftUp r g = Some (g2, r1)"
      using shiftUp_defined [of g r] assms by (auto simp: wellShaped_length)
    then have w2: "wellShaped g2" by (rule wellShaped_shiftUp)
    then obtain over2 where "checkGameOver g2 = Some over2"
      using checkGameOver_defined by blast
    with o False s w2 \<open>m = Classic\<close> show ?thesis by (auto simp: addRowAfterSuccess_def)
  qed
qed

subsection \<open>Gravity: the closed form of the loops\<close>

lemma cellAt_setCell:
  assumes "row < length g" and "col < length (g ! row)"
  shows "cellAt (setCell g row col v) r c = (if r = row \<and> c = col then v else cellAt g r c)"
  using assms by (auto simp: cellAt_def setCell_def nth_list_update)

lemma wellShaped_setCell: "wellShaped g \<Longrightarrow> wellShaped (setCell g row col v)"
  by (simp add: wellShaped_def shape_setCell)

lemma length_colBlocks: "length (colBlocks g col n) \<le> n"
  by (induction n) (auto split: option.splits)

lemma gravityRows_cellAt:
  assumes "wellShaped newGrid" and "col < GRID_COLS" and "t < GRID_ROWS"
    and "length (colBlocks g col n) \<le> Suc t" and "r < GRID_ROWS"
  shows "cellAt (gravityRows g col n t newGrid) r c =
           (if c = col \<and> r \<le> t \<and> Suc t \<le> r + length (colBlocks g col n)
            then Some ((colBlocks g col n ! (r + length (colBlocks g col n) - Suc t))
                         \<lparr>row_b := r, col_b := col\<rparr>)
            else cellAt newGrid r c)"
  using assms
proof (induction n arbitrary: t newGrid)
  case 0
  then show ?case by auto
next
  case (Suc n)
  show ?case
  proof (cases "cellAt g n col")
    case None
    then show ?thesis using Suc by simp
  next
    case (Some b)
    let ?bs = "colBlocks g col n"
    let ?ng = "setCell newGrid t col (Some (b\<lparr>row_b := t, col_b := col\<rparr>))"
    have k: "length ?bs \<le> t" using Suc.prems(4) Some by simp
    have w: "wellShaped ?ng" using Suc.prems(1) by (rule wellShaped_setCell)
    have set: "cellAt ?ng r c =
                 (if r = t \<and> c = col then Some (b\<lparr>row_b := t, col_b := col\<rparr>) else cellAt newGrid r c)"
      using Suc.prems(1-3) by (intro cellAt_setCell) (simp_all add: wellShaped_length wellShaped_row)
    have ih: "cellAt (gravityRows g col n (t - 1) ?ng) r c =
           (if c = col \<and> r \<le> t - 1 \<and> Suc (t - 1) \<le> r + length ?bs
            then Some ((?bs ! (r + length ?bs - Suc (t - 1)))\<lparr>row_b := r, col_b := col\<rparr>)
            else cellAt ?ng r c)"
      using Suc.IH [OF w Suc.prems(2), of "t - 1"] Suc.prems(3,5) k by simp
    show ?thesis
    proof (cases "t = 0")
      case True
      then have "?bs = []" using k by simp
      then show ?thesis using Some ih set True by auto
    next
      case False
      then show ?thesis using Some ih set k
        by (auto simp: nth_append Suc_diff_le)
    qed
  qed
qed


lemma cellAt_createEmptyGrid: "r < GRID_ROWS \<Longrightarrow> cellAt createEmptyGrid r c = None"
  by (auto simp: cellAt_def createEmptyGrid_def)

lemma gravityCols_cellAt:
  assumes "m \<le> GRID_COLS" and "r < GRID_ROWS"
  shows "wellShaped (fold (\<lambda>col newGrid. gravityRows g col GRID_ROWS (GRID_ROWS - 1) newGrid)
                       [0..<m] createEmptyGrid)
       \<and> cellAt (fold (\<lambda>col newGrid. gravityRows g col GRID_ROWS (GRID_ROWS - 1) newGrid)
                    [0..<m] createEmptyGrid) r c
           = (if c < m then gravityCell g r c else None)"
  using assms
proof (induction m)
  case 0
  then show ?case by (simp add: wellShaped_createEmptyGrid cellAt_createEmptyGrid)
next
  case (Suc m)
  let ?G = "fold (\<lambda>col newGrid. gravityRows g col GRID_ROWS (GRID_ROWS - 1) newGrid)
              [0..<m] createEmptyGrid"
  have w: "wellShaped ?G" and ih: "cellAt ?G r c = (if c < m then gravityCell g r c else None)"
    using Suc by simp_all
  have rows: "0 < GRID_ROWS" by (simp add: GRID_ROWS_def)
  have step: "cellAt (gravityRows g m GRID_ROWS (GRID_ROWS - 1) ?G) r c =
           (if c = m \<and> r \<le> GRID_ROWS - 1 \<and> Suc (GRID_ROWS - 1) \<le> r + length (colBlocks g m GRID_ROWS)
            then Some ((colBlocks g m GRID_ROWS ! (r + length (colBlocks g m GRID_ROWS) - Suc (GRID_ROWS - 1)))
                         \<lparr>row_b := r, col_b := m\<rparr>)
            else cellAt ?G r c)"
    using w Suc.prems rows length_colBlocks [of g m GRID_ROWS]
    by (intro gravityRows_cellAt) simp_all
  have w': "wellShaped (gravityRows g m GRID_ROWS (GRID_ROWS - 1) ?G)"
    using w by (simp add: wellShaped_def shape_gravityRows)
  show ?case
    using w' step ih Suc.prems(2) rows
    by (auto simp: gravityCell_def Let_def less_Suc_eq)
qed

lemma wellShaped_eqI:
  assumes "wellShaped a" and "wellShaped b"
    and "\<And>r c. r < GRID_ROWS \<Longrightarrow> c < GRID_COLS \<Longrightarrow> a ! r ! c = b ! r ! c"
  shows "a = b"
proof (rule nth_equalityI)
  show "length a = length b" using assms(1,2) by (simp add: wellShaped_length)
next
  fix r assume "r < length a"
  then have r: "r < GRID_ROWS" using assms(1) by (simp add: wellShaped_length)
  show "a ! r = b ! r"
  proof (rule nth_equalityI)
    show "length (a ! r) = length (b ! r)" using assms(1,2) r by (simp add: wellShaped_row)
  next
    fix c assume "c < length (a ! r)"
    then have "c < GRID_COLS" using assms(1) r by (simp add: wellShaped_row)
    then show "a ! r ! c = b ! r ! c" using r by (rule assms(3) [rotated])
  qed
qed

lemma wellShaped_gravitySpec: "wellShaped (gravitySpec g)"
  by (simp add: wellShaped_def gravitySpec_def comp_def map_replicate_const)

lemma applyGravity_gravitySpec:
  assumes "GRID_ROWS \<le> length g"
  shows "applyGravity g = Some (gravitySpec g)"
proof -
  let ?G = "fold (\<lambda>col newGrid. gravityRows g col GRID_ROWS (GRID_ROWS - 1) newGrid)
              [0..<GRID_COLS] createEmptyGrid"
  have a: "applyGravity g = Some ?G" using assms by (simp add: applyGravity_def)
  have w: "wellShaped ?G" using a by (rule wellShaped_applyGravity)
  have "?G = gravitySpec g"
  proof (rule wellShaped_eqI [OF w wellShaped_gravitySpec])
    fix r c assume r: "r < GRID_ROWS" and c: "c < GRID_COLS"
    have "cellAt ?G r c = gravityCell g r c"
      using gravityCols_cellAt [of GRID_COLS r g c] r c by simp
    moreover have "cellAt ?G r c = ?G ! r ! c"
      using w r c by (simp add: cellAt_def wellShaped_row)
    ultimately show "?G ! r ! c = gravitySpec g ! r ! c"
      using r c by (simp add: gravitySpec_def)
  qed
  then show ?thesis using a by simp
qed


lemma cellAt_gravitySpec:
  assumes "r < GRID_ROWS" and "c < GRID_COLS"
  shows "cellAt (gravitySpec g) r c = gravityCell g r c"
  using assms by (simp add: cellAt_def gravitySpec_def)

lemma colBlocks_settled:
  assumes "k \<le> GRID_ROWS" and "n \<le> GRID_ROWS"
    and "\<And>r. r < n \<Longrightarrow> cellAt h r c = (if GRID_ROWS \<le> r + k then Some (f r) else None)"
  shows "colBlocks h c n = map f [GRID_ROWS - k..<n]"
  using assms(2,3)
proof (induction n)
  case 0
  then show ?case by simp
next
  case (Suc n)
  have ih: "colBlocks h c n = map f [GRID_ROWS - k..<n]" using Suc by simp
  have cell: "cellAt h n c = (if GRID_ROWS \<le> n + k then Some (f n) else None)"
    using Suc.prems(2) [of n] by simp
  show ?case
  proof (cases "GRID_ROWS \<le> n + k")
    case True
    then have "[GRID_ROWS - k..<Suc n] = [GRID_ROWS - k..<n] @ [n]" by simp
    then show ?thesis using ih cell True by simp
  next
    case False
    then show ?thesis using ih cell by simp
  qed
qed

lemma colBlocks_gravitySpec:
  assumes "c < GRID_COLS"
  shows "colBlocks (gravitySpec g) c GRID_ROWS =
           map (\<lambda>r. (colBlocks g c GRID_ROWS ! (r + length (colBlocks g c GRID_ROWS) - GRID_ROWS))
                       \<lparr>row_b := r, col_b := c\<rparr>)
             [GRID_ROWS - length (colBlocks g c GRID_ROWS)..<GRID_ROWS]"
proof (rule colBlocks_settled)
  show "length (colBlocks g c GRID_ROWS) \<le> GRID_ROWS" by (rule length_colBlocks)
  show "GRID_ROWS \<le> GRID_ROWS" by simp
  fix r assume "r < GRID_ROWS"
  then show "cellAt (gravitySpec g) r c =
          (if GRID_ROWS \<le> r + length (colBlocks g c GRID_ROWS)
           then Some ((colBlocks g c GRID_ROWS ! (r + length (colBlocks g c GRID_ROWS) - GRID_ROWS))
                        \<lparr>row_b := r, col_b := c\<rparr>)
           else None)"
    using assms by (simp add: cellAt_gravitySpec gravityCell_def Let_def)
qed

lemma gravityCell_gravitySpec:
  assumes "r < GRID_ROWS" and "c < GRID_COLS"
  shows "gravityCell (gravitySpec g) r c = gravityCell g r c"
proof -
  let ?bs = "colBlocks g c GRID_ROWS"
  let ?k = "length ?bs"
  let ?f = "\<lambda>r. (?bs ! (r + ?k - GRID_ROWS))\<lparr>row_b := r, col_b := c\<rparr>"
  have k: "?k \<le> GRID_ROWS" by (rule length_colBlocks)
  have bs': "colBlocks (gravitySpec g) c GRID_ROWS = map ?f [GRID_ROWS - ?k..<GRID_ROWS]"
    using assms(2) by (rule colBlocks_gravitySpec)
  then have len: "length (colBlocks (gravitySpec g) c GRID_ROWS) = ?k" using k by simp
  show ?thesis
  proof (cases "GRID_ROWS \<le> r + ?k")
    case False
    then show ?thesis using len by (simp add: gravityCell_def Let_def)
  next
    case True
    then have "r + ?k - GRID_ROWS < GRID_ROWS - (GRID_ROWS - ?k)" using assms(1) k by simp
    then have "map ?f [GRID_ROWS - ?k..<GRID_ROWS] ! (r + ?k - GRID_ROWS)
                 = ?f (GRID_ROWS - ?k + (r + ?k - GRID_ROWS))"
      by (rule nth_map_upt)
    also have "GRID_ROWS - ?k + (r + ?k - GRID_ROWS) = r" using True k by simp
    finally have "colBlocks (gravitySpec g) c GRID_ROWS ! (r + ?k - GRID_ROWS) = ?f r"
      using bs' by simp
    then show ?thesis using len True by (simp add: gravityCell_def Let_def)
  qed
qed

lemma gravitySpec_idem: "gravitySpec (gravitySpec g) = gravitySpec g"
  by (simp add: gravitySpec_def gravityCell_gravitySpec [unfolded gravitySpec_def])


lemma rowBlocks_sum:
  "mset (map f (map the (filter (\<lambda>c. c \<noteq> None) row))) =
     (\<Sum>c<length row. mset (map f (case row ! c of Some b \<Rightarrow> [b] | None \<Rightarrow> [])))"
proof (induction row rule: rev_induct)
  case Nil
  then show ?case by simp
next
  case (snoc x xs)
  have "(\<Sum>c<length xs. mset (map f (case (xs @ [x]) ! c of Some b \<Rightarrow> [b] | None \<Rightarrow> [])))
      = (\<Sum>c<length xs. mset (map f (case xs ! c of Some b \<Rightarrow> [b] | None \<Rightarrow> [])))"
    by (rule sum.cong) (simp_all add: nth_append)
  then show ?case using snoc by (cases x) (simp_all add: nth_append)
qed

lemma blocksOf_snoc:
  "blocksOf (xs @ [row]) = blocksOf xs @ map the (filter (\<lambda>c. c \<noteq> None) row)"
  by (simp add: blocksOf_def)

lemma blocksOf_columns:
  assumes "wellShaped g" and "n \<le> GRID_ROWS"
  shows "mset (map f (blocksOf (take n g))) = (\<Sum>c<GRID_COLS. mset (map f (colBlocks g c n)))"
  using assms(2)
proof (induction n)
  case 0
  then show ?case by (simp add: blocksOf_def)
next
  case (Suc n)
  have n: "n < GRID_ROWS" using Suc.prems by simp
  then have t: "take (Suc n) g = take n g @ [g ! n]"
    using assms(1) by (simp add: take_Suc_conv_app_nth wellShaped_length)
  have len: "length (g ! n) = GRID_COLS" using assms(1) n by (rule wellShaped_row)
  have row: "mset (map f (map the (filter (\<lambda>c. c \<noteq> None) (g ! n)))) =
          (\<Sum>c<GRID_COLS. mset (map f (case cellAt g n c of Some b \<Rightarrow> [b] | None \<Rightarrow> [])))"
    unfolding rowBlocks_sum len
    by (rule sum.cong) (simp_all add: cellAt_def len)
  have "mset (map f (blocksOf (take (Suc n) g)))
      = mset (map f (blocksOf (take n g))) + mset (map f (map the (filter (\<lambda>c. c \<noteq> None) (g ! n))))"
    unfolding t blocksOf_snoc by simp
  also have "\<dots> = (\<Sum>c<GRID_COLS. mset (map f (colBlocks g c n)))
                + (\<Sum>c<GRID_COLS. mset (map f (case cellAt g n c of Some b \<Rightarrow> [b] | None \<Rightarrow> [])))"
    using Suc.IH n row by simp
  also have "\<dots> = (\<Sum>c<GRID_COLS. mset (map f (colBlocks g c (Suc n))))"
    by (simp add: sum.distrib)
  finally show ?case .
qed

lemma idsAndValues_columns:
  assumes "wellShaped g"
  shows "idsAndValues g =
           (\<Sum>c<GRID_COLS. mset (map (\<lambda>b. (id_b b, value_b b)) (colBlocks g c GRID_ROWS)))"
  using blocksOf_columns [OF assms, of GRID_ROWS] assms
  by (simp add: idsAndValues_def wellShaped_length)

lemma colBlocks_gravitySpec_idsAndValues:
  assumes "c < GRID_COLS"
  shows "map (\<lambda>b. (id_b b, value_b b)) (colBlocks (gravitySpec g) c GRID_ROWS)
       = map (\<lambda>b. (id_b b, value_b b)) (colBlocks g c GRID_ROWS)"
proof (rule nth_equalityI)
  have k: "length (colBlocks g c GRID_ROWS) \<le> GRID_ROWS" by (rule length_colBlocks)
  show "length (map (\<lambda>b. (id_b b, value_b b)) (colBlocks (gravitySpec g) c GRID_ROWS))
      = length (map (\<lambda>b. (id_b b, value_b b)) (colBlocks g c GRID_ROWS))"
    using k by (simp add: colBlocks_gravitySpec [OF assms])
  fix i assume "i < length (map (\<lambda>b. (id_b b, value_b b)) (colBlocks (gravitySpec g) c GRID_ROWS))"
  then have i: "i < length (colBlocks g c GRID_ROWS)"
    using k by (simp add: colBlocks_gravitySpec [OF assms])
  then show "map (\<lambda>b. (id_b b, value_b b)) (colBlocks (gravitySpec g) c GRID_ROWS) ! i
      = map (\<lambda>b. (id_b b, value_b b)) (colBlocks g c GRID_ROWS) ! i"
    using k by (simp add: colBlocks_gravitySpec [OF assms])
qed

lemma idsAndValues_gravitySpec:
  assumes "wellShaped g"
  shows "idsAndValues (gravitySpec g) = idsAndValues g"
  unfolding idsAndValues_columns [OF assms] idsAndValues_columns [OF wellShaped_gravitySpec]
  by (rule sum.cong) (simp_all add: colBlocks_gravitySpec_idsAndValues)

subsection \<open>Gravity: the arrays it writes\<close>

lemma length_setCell: "length (setCell g row col v) = length g"
  by (simp add: setCell_def)

lemma length_gravityRows: "length (gravityRows g col n t newGrid) = length newGrid"
  using shape_gravityRows [of g col n t newGrid] by (metis length_map)

lemma setCell_append_new:
  assumes "t < length new"
  shows "setCell (old @ new) (length old + t) col v = old @ setCell new t col v"
  using assms by (simp add: setCell_def list_update_append nth_append)

lemma cellAt_append_old:
  assumes "a < length old"
  shows "cellAt (old @ new) a col = cellAt old a col"
  using assms by (simp add: cellAt_def nth_append)

lemma gravityRows_st_simulation:
  assumes "length new = GRID_ROWS" and "t < GRID_ROWS" and "n \<le> length g"
    and "\<forall>a \<in> set g. a < length old"
  shows "gravityRows_st g col n t [length old..<length old + GRID_ROWS] (old @ new)
       = old @ gravityRows (readGrid old g) col n t new"
  using assms(1-3)
proof (induction n arbitrary: t new)
  case 0
  then show ?case by simp
next
  case (Suc n)
  have n: "n < length g" using Suc.prems(3) by simp
  then have a: "g ! n < length old" using assms(4) by simp
  have read: "cellAt (old @ new) (g ! n) col = cellAt (readGrid old g) n col"
  proof -
    have "cellAt (old @ new) (g ! n) col = cellAt old (g ! n) col"
      using a by (rule cellAt_append_old)
    also have "\<dots> = cellAt (readGrid old g) n col"
      using n by (simp add: cellAt_def readGrid_def)
    finally show ?thesis .
  qed
  show ?case
  proof (cases "cellAt (readGrid old g) n col")
    case None
    then show ?thesis using read Suc.IH [of new t] Suc.prems by simp
  next
    case (Some b)
    let ?v = "Some (b\<lparr>row_b := t, col_b := col\<rparr>)"
    have addr: "[length old..<length old + GRID_ROWS] ! t = length old + t"
      using Suc.prems(2) by simp
    have w: "setCell (old @ new) (length old + t) col ?v = old @ setCell new t col ?v"
      using Suc.prems(1,2) by (intro setCell_append_new) simp
    have "gravityRows_st g col n (t - 1) [length old..<length old + GRID_ROWS]
            (old @ setCell new t col ?v)
        = old @ gravityRows (readGrid old g) col n (t - 1) (setCell new t col ?v)"
      using Suc.prems by (intro Suc.IH) (simp_all add: length_setCell)
    then show ?thesis using read Some addr w by simp
  qed
qed

lemma gravityCols_st_simulation:
  assumes "length new = GRID_ROWS" and "GRID_ROWS \<le> length g" and "\<forall>a \<in> set g. a < length old"
  shows "fold (\<lambda>col st'. gravityRows_st g col GRID_ROWS (GRID_ROWS - 1)
                           [length old..<length old + GRID_ROWS] st') cols (old @ new)
       = old @ fold (\<lambda>col newGrid. gravityRows (readGrid old g) col GRID_ROWS (GRID_ROWS - 1) newGrid)
                 cols new"
  using assms(1)
proof (induction cols arbitrary: new)
  case Nil
  then show ?case by simp
next
  case (Cons col cols)
  have rows: "GRID_ROWS - 1 < GRID_ROWS" by (simp add: GRID_ROWS_def)
  have "gravityRows_st g col GRID_ROWS (GRID_ROWS - 1) [length old..<length old + GRID_ROWS] (old @ new)
      = old @ gravityRows (readGrid old g) col GRID_ROWS (GRID_ROWS - 1) new"
    using Cons.prems rows assms(2,3) by (intro gravityRows_st_simulation)
  then show ?case
    using Cons.IH [of "gravityRows (readGrid old g) col GRID_ROWS (GRID_ROWS - 1) new"] Cons.prems
    by (simp add: length_gravityRows)
qed

lemma applyGravity_st_result:
  assumes "GRID_ROWS \<le> length g" and "\<forall>a \<in> set g. a < length st"
    and "applyGravity (readGrid st g) = Some g'"
  shows "applyGravity_st st g = Some ([length st..<length st + GRID_ROWS], st @ g')"
proof -
  have "g' = fold (\<lambda>col newGrid. gravityRows (readGrid st g) col GRID_ROWS (GRID_ROWS - 1) newGrid)
               [0..<GRID_COLS] createEmptyGrid"
    using assms(3) by (simp add: applyGravity_def split: if_splits)
  moreover have "length createEmptyGrid = GRID_ROWS" by (simp add: createEmptyGrid_def)
  ultimately show ?thesis
    using gravityCols_st_simulation [of createEmptyGrid g st "[0..<GRID_COLS]"] assms(1,2)
    by (simp add: applyGravity_st_def createEmptyGrid_st_def createEmptyGrid_def)
qed

lemma readGrid_old:
  assumes "\<forall>a \<in> set refs. a < length st"
  shows "readGrid (st @ new) refs = readGrid st refs"
  using assms by (simp add: readGrid_def nth_append)

lemma readGrid_new: "readGrid (st @ new) [length st..<length st + length new] = new"
  by (rule nth_equalityI) (simp_all add: readGrid_def nth_append)

text \<open>
  Claim C8. On a grid of shape \<open>GRID_ROWS \<times> GRID_COLS\<close>, \<open>applyGravity\<close> returns a grid \<open>g'\<close>
  on which \<open>applyGravity\<close> returns \<open>g'\<close> again; \<open>g'\<close> holds the same multiset of block ids and
  values as the input; and the input is not mutated: run on a store in which the input's
  rows live, \<open>applyGravity\<close> leaves every array of that store as it was and appends the rows
  of \<open>g'\<close>, so the input still reads as before.
\<close>

theorem applyGravity_idempotent_conserving:
  assumes "wellShaped g"
  shows "\<exists>g'. applyGravity g = Some g' \<and> applyGravity g' = Some g'
            \<and> idsAndValues g' = idsAndValues g
            \<and> (\<forall>st refs. (\<forall>a \<in> set refs. a < length st) \<and> readGrid st refs = g \<longrightarrow>
                  (\<exists>refs'. applyGravity_st st refs = Some (refs', st @ g')
                         \<and> readGrid (st @ g') refs' = g'
                         \<and> readGrid (st @ g') refs = g))"
proof -
  let ?g' = "gravitySpec g"
  have len: "length g = GRID_ROWS" using assms by (rule wellShaped_length)
  have len': "length ?g' = GRID_ROWS" using wellShaped_gravitySpec by (rule wellShaped_length)
  have once: "applyGravity g = Some ?g'" using len by (simp add: applyGravity_gravitySpec)
  have twice: "applyGravity ?g' = Some ?g'"
    using applyGravity_gravitySpec [of ?g'] len' by (simp add: gravitySpec_idem)
  have cons: "idsAndValues ?g' = idsAndValues g" using assms by (rule idsAndValues_gravitySpec)
  have store: "\<exists>refs'. applyGravity_st st refs = Some (refs', st @ ?g')
                         \<and> readGrid (st @ ?g') refs' = ?g'
                         \<and> readGrid (st @ ?g') refs = g"
    if valid: "\<forall>a \<in> set refs. a < length st" and read: "readGrid st refs = g" for st refs
  proof -
    have "length refs = GRID_ROWS" using read len by (auto simp: readGrid_def)
    then have "applyGravity_st st refs = Some ([length st..<length st + GRID_ROWS], st @ ?g')"
      using valid read once by (intro applyGravity_st_result) simp_all
    moreover have "readGrid (st @ ?g') [length st..<length st + GRID_ROWS] = ?g'"
      using readGrid_new [of st ?g'] len' by simp
    moreover have "readGrid (st @ ?g') refs = g"
      using readGrid_old [OF valid] read by simp
    ultimately show ?thesis by blast
  qed
  show ?thesis using once twice cons store by blast
qed

theorem applyGravity_idempotent_conserving_witness:
  "wellShaped looseGrid \<and> list_all (\<lambda>a. a < length looseGrid) [0..<10]
   \<and> readGrid looseGrid [0..<10] = looseGrid
   \<and> (\<exists>g' refs'. applyGravity looseGrid = Some g' \<and> g' \<noteq> looseGrid
         \<and> applyGravity g' = Some g' \<and> idsAndValues g' = idsAndValues looseGrid
         \<and> applyGravity_st looseGrid [0..<10] = Some (refs', looseGrid @ g')
         \<and> readGrid (looseGrid @ g') refs' = g'
         \<and> readGrid (looseGrid @ g') [0..<10] = looseGrid)"
proof -
  have h1: "wellShaped looseGrid" by code_simp
  have h2: "list_all (\<lambda>a. a < length looseGrid) [0..<10]" by code_simp
  have h3: "readGrid looseGrid [0..<10] = looseGrid" by code_simp
  have h4: "the (applyGravity looseGrid) \<noteq> looseGrid" by code_simp
  from applyGravity_idempotent_conserving [OF h1] obtain g' where
    g: "applyGravity looseGrid = Some g'" "applyGravity g' = Some g'"
       "idsAndValues g' = idsAndValues looseGrid" and
    st: "\<forall>st refs. (\<forall>a \<in> set refs. a < length st) \<and> readGrid st refs = looseGrid \<longrightarrow>
                  (\<exists>refs'. applyGravity_st st refs = Some (refs', st @ g')
                         \<and> readGrid (st @ g') refs' = g'
                         \<and> readGrid (st @ g') refs = looseGrid)"
    by blast
  have "\<forall>a \<in> set [0..<10]. a < length looseGrid" using h2 by (simp only: list_all_iff)
  with st h3 obtain refs' where
    "applyGravity_st looseGrid [0..<10] = Some (refs', looseGrid @ g')"
    "readGrid (looseGrid @ g') refs' = g'"
    "readGrid (looseGrid @ g') [0..<10] = looseGrid"
    by blast
  moreover have "g' \<noteq> looseGrid" using h4 g(1) by simp
  ultimately show ?thesis using h1 h2 h3 g by blast
qed

subsection \<open>Clicks\<close>

lemma success_result:
  assumes "wellShaped (grid s)"
  shows "\<exists>g1 finalGrid over r1.
           applyGravity (removeSelected ids (grid s)) = Some g1 \<and> wellShaped g1 \<and>
           addRowAfterSuccess (mode s) r g1 = Some (finalGrid, over, r1) \<and> wellShaped finalGrid \<and>
           success r s ids =
             Some (s\<lparr>grid := finalGrid,
                     selectedIds := [],
                     targetSum := fst (getTargetSum (level s) r1),
                     score := score s + targetSum s * int (length ids) * (combo s + 1),
                     highScore := max (score s + targetSum s * int (length ids) * (combo s + 1))
                                    (highScore s),
                     isGameOver := over,
                     combo := combo s + 1,
                     level := (score s + targetSum s * int (length ids) * (combo s + 1)) div 1000 + 1,
                     timeLeft := (if mode s = Time then Some (nextMaxTime (level s)) else None),
                     maxTime := (if mode s = Time then Some (nextMaxTime (level s)) else None)\<rparr>,
                   snd (getTargetSum (level s) r1))"
proof -
  have "GRID_ROWS \<le> length (removeSelected ids (grid s))"
    using assms by (simp add: removeSelected_def wellShaped_length)
  then obtain g1 where g1: "applyGravity (removeSelected ids (grid s)) = Some g1"
    using applyGravity_defined by blast
  then have w1: "wellShaped g1" by (rule wellShaped_applyGravity)
  obtain finalGrid over r1 where
    a: "addRowAfterSuccess (mode s) r g1 = Some (finalGrid, over, r1)" and wf: "wellShaped finalGrid"
    using addRowAfterSuccess_defined [OF w1] by blast
  show ?thesis
    using g1 w1 a wf by (simp add: success_def Let_def split: prod.splits)
qed

lemma handleBlockClick_match:
  assumes "\<not> isGameOver s"
    and "currentSum (selectedBlocks (grid s) (toggleId (id_b b) (selectedIds s))) = targetSum s"
  shows "handleBlockClick False r s b = success r s (toggleId (id_b b) (selectedIds s))"
  using assms by (simp add: handleBlockClick_def Let_def)

lemma addRowAfterSuccess_cases:
  assumes "addRowAfterSuccess m r g1 = Some (finalGrid, over, r1)"
  shows "(m = Classic \<and> checkGameOver g1 = Some True \<longrightarrow> finalGrid = g1 \<and> over \<and> r1 = r)
       \<and> (m = Classic \<and> checkGameOver g1 = Some False \<longrightarrow>
            shiftUp r g1 = Some (finalGrid, r1) \<and> checkGameOver finalGrid = Some over)
       \<and> (m = Time \<longrightarrow> finalGrid = g1 \<and> \<not> over \<and> r1 = r)"
  using assms by (auto simp: addRowAfterSuccess_def split: if_splits option.splits bool.splits)

lemma removeSelected_cells:
  assumes "row < length g" and "col < length (g ! row)"
  shows "removeSelected ids g ! row ! col =
           (case g ! row ! col of
              None \<Rightarrow> None
            | Some blk \<Rightarrow> if id_b blk \<in> set ids then None else Some blk)"
  using assms by (simp add: removeSelected_def split: option.splits)

lemma removeSelected_cells_wellShaped:
  assumes "wellShaped g"
  shows "\<forall>row < GRID_ROWS. \<forall>col < GRID_COLS.
           removeSelected ids g ! row ! col =
             (case g ! row ! col of
                None \<Rightarrow> None
              | Some blk \<Rightarrow> if id_b blk \<in> set ids then None else Some blk)"
  using assms by (simp add: removeSelected_cells wellShaped_length wellShaped_row)

text \<open>
  Claim C1. A click that brings the selection to exactly the target sum, in a game that is
  neither over nor paused. The grid \<open>removed\<close> has the shape of the old grid, an empty cell
  where the old grid has a block whose id is selected, and the old cell everywhere else;
  gravity is applied to it. In classic mode, when row 0 of the post-gravity grid holds a
  block the game is over and the grid is the post-gravity grid, with no row added;
  otherwise the grid is \<open>shiftUp\<close> of it and the game is over exactly when \<open>checkGameOver\<close> of
  the shifted grid says so. In time mode the grid is the post-gravity grid and the game is
  not over.
\<close>

theorem exact_match_grid:
  assumes "\<not> isGameOver s" and "wellShaped (grid s)"
    and "currentSum (selectedBlocks (grid s) (toggleId (id_b b) (selectedIds s))) = targetSum s"
  shows "\<exists>removed gravityGrid s' r'.
           wellShaped removed
         \<and> (\<forall>row < GRID_ROWS. \<forall>col < GRID_COLS.
               removed ! row ! col =
                 (case grid s ! row ! col of
                    None \<Rightarrow> None
                  | Some blk \<Rightarrow>
                      if id_b blk \<in> set (toggleId (id_b b) (selectedIds s)) then None
                      else Some blk))
         \<and> applyGravity removed = Some gravityGrid
         \<and> handleBlockClick False r s b = Some (s', r')
         \<and> (mode s = Classic \<and> checkGameOver gravityGrid = Some True \<longrightarrow>
              grid s' = gravityGrid \<and> isGameOver s')
         \<and> (mode s = Classic \<and> checkGameOver gravityGrid = Some False \<longrightarrow>
              (\<exists>r1. shiftUp r gravityGrid = Some (grid s', r1)
                  \<and> checkGameOver (grid s') = Some (isGameOver s')))
         \<and> (mode s = Time \<longrightarrow> grid s' = gravityGrid \<and> \<not> isGameOver s')"
proof -
  let ?ids = "toggleId (id_b b) (selectedIds s)"
  let ?removed = "removeSelected ?ids (grid s)"
  obtain g1 finalGrid over r1 s' r' where
    g1: "applyGravity ?removed = Some g1" and
    a: "addRowAfterSuccess (mode s) r g1 = Some (finalGrid, over, r1)" and
    s: "success r s ?ids = Some (s', r')" and
    gs: "grid s' = finalGrid" and os: "isGameOver s' = over"
    using success_result [OF assms(2), of ?ids r] by fastforce
  have h: "handleBlockClick False r s b = Some (s', r')"
    using handleBlockClick_match [OF assms(1) assms(3)] s by simp
  have w: "wellShaped ?removed" using assms(2) by (rule wellShaped_removeSelected)
  have c: "\<forall>row < GRID_ROWS. \<forall>col < GRID_COLS.
               ?removed ! row ! col =
                 (case grid s ! row ! col of
                    None \<Rightarrow> None
                  | Some blk \<Rightarrow> if id_b blk \<in> set ?ids then None else Some blk)"
    using assms(2) by (rule removeSelected_cells_wellShaped)
  have rest: "(mode s = Classic \<and> checkGameOver g1 = Some True \<longrightarrow>
              grid s' = g1 \<and> isGameOver s')
         \<and> (mode s = Classic \<and> checkGameOver g1 = Some False \<longrightarrow>
              (\<exists>r1. shiftUp r g1 = Some (grid s', r1)
                  \<and> checkGameOver (grid s') = Some (isGameOver s')))
         \<and> (mode s = Time \<longrightarrow> grid s' = g1 \<and> \<not> isGameOver s')"
    using gs os addRowAfterSuccess_cases [OF a] by auto
  show ?thesis
    using w c g1 h rest by blast
qed

theorem exact_match_grid_witness:
  "\<not> isGameOver (demoState Classic [''a'']) \<and> wellShaped (grid (demoState Classic [''a'']))
   \<and> toggleId (id_b (mkBlock ''b'' 6 9 1)) (selectedIds (demoState Classic [''a''])) = [''a'', ''b'']
   \<and> (\<exists>removed gravityGrid s' r'.
         removed ! 9 ! 0 = None \<and> removed ! 9 ! 1 = None
       \<and> removed ! 9 ! 2 = Some (mkBlock ''c'' 3 9 2) \<and> removed ! 9 ! 3 = Some (mkBlock ''d'' 8 9 3)
       \<and> applyGravity removed = Some gravityGrid
       \<and> handleBlockClick False (drawsFrom []) (demoState Classic [''a'']) (mkBlock ''b'' 6 9 1)
           = Some (s', r')
       \<and> mode (demoState Classic [''a'']) = Classic
       \<and> checkGameOver gravityGrid = Some False
       \<and> (\<exists>r1. shiftUp (drawsFrom []) gravityGrid = Some (grid s', r1)
                  \<and> checkGameOver (grid s') = Some (isGameOver s')))"
proof -
  let ?s = "demoState Classic [''a'']" and ?b = "mkBlock ''b'' 6 9 1"
  have h1: "\<not> isGameOver ?s" by (simp add: demoState_def)
  have h2: "wellShaped (grid ?s)" by code_simp
  have h3: "currentSum (selectedBlocks (grid ?s) (toggleId (id_b ?b) (selectedIds ?s))) = targetSum ?s"
    by code_simp
  have t: "toggleId (id_b ?b) (selectedIds ?s) = [''a'', ''b'']" by code_simp
  have g: "grid ?s = demoGrid" and m: "mode ?s = Classic" by (simp_all add: demoState_def)
  have cells: "demoGrid ! 9 ! 0 = Some (mkBlock ''a'' 4 9 0)" "demoGrid ! 9 ! 1 = Some (mkBlock ''b'' 6 9 1)"
    "demoGrid ! 9 ! 2 = Some (mkBlock ''c'' 3 9 2)" "demoGrid ! 9 ! 3 = Some (mkBlock ''d'' 8 9 3)"
    by code_simp+
  have ids: "id_b (mkBlock ''a'' 4 9 0) = ''a''" "id_b (mkBlock ''b'' 6 9 1) = ''b''"
    "id_b (mkBlock ''c'' 3 9 2) = ''c''" "id_b (mkBlock ''d'' 8 9 3) = ''d''"
    by (simp_all add: mkBlock_def)
  from exact_match_grid [OF h1 h2 h3, of "drawsFrom []"]
  obtain removed gravityGrid s' r' where
    w: "wellShaped removed" and
    c: "\<forall>row < GRID_ROWS. \<forall>col < GRID_COLS.
               removed ! row ! col =
                 (case demoGrid ! row ! col of
                    None \<Rightarrow> None
                  | Some blk \<Rightarrow> if id_b blk \<in> set [''a'', ''b''] then None else Some blk)" and
    ag: "applyGravity removed = Some gravityGrid" and
    hb: "handleBlockClick False (drawsFrom []) ?s ?b = Some (s', r')" and
    cl: "checkGameOver gravityGrid = Some False \<longrightarrow>
              (\<exists>r1. shiftUp (drawsFrom []) gravityGrid = Some (grid s', r1)
                  \<and> checkGameOver (grid s') = Some (isGameOver s'))"
    unfolding t g m by auto
  have r: "removed ! 9 ! 0 = None" "removed ! 9 ! 1 = None"
    "removed ! 9 ! 2 = Some (mkBlock ''c'' 3 9 2)" "removed ! 9 ! 3 = Some (mkBlock ''d'' 8 9 3)"
    using c cells ids by (simp_all add: GRID_ROWS_def GRID_COLS_def)
  have "removed = removeSelected [''a'', ''b''] demoGrid"
  proof (rule wellShaped_eqI [OF w])
    show "wellShaped (removeSelected [''a'', ''b''] demoGrid)"
      using h2 g by (simp add: wellShaped_removeSelected)
    fix row col assume "row < GRID_ROWS" and "col < GRID_COLS"
    then show "removed ! row ! col = removeSelected [''a'', ''b''] demoGrid ! row ! col"
      using c removeSelected_cells_wellShaped [of demoGrid "[''a'', ''b'']"] h2 g by simp
  qed
  moreover have "checkGameOver (the (applyGravity (removeSelected [''a'', ''b''] demoGrid))) = Some False"
    by code_simp
  ultimately have "checkGameOver gravityGrid = Some False" using ag by simp
  then show ?thesis using h1 h2 t r ag hb m cl by blast
qed

text \<open>
  Claim C5. A click that brings the selection above the target sum, in a game that is
  neither over nor paused, clears \<open>selectedIds\<close>, resets \<open>combo\<close> to 0 and changes nothing
  else: the grid, the score, the target sum, the level, the high score and the timer
  fields are those of the state before, and no random number is drawn.
\<close>

theorem exceeded_resets_selection:
  assumes "\<not> isGameOver s"
    and "targetSum s < currentSum (selectedBlocks (grid s) (toggleId (id_b b) (selectedIds s)))"
  shows "handleBlockClick False r s b = Some (s\<lparr>selectedIds := [], combo := 0\<rparr>, r)"
  using assms by (simp add: handleBlockClick_def Let_def)

theorem exceeded_resets_selection_witness:
  "\<not> isGameOver (demoState Classic [''a'', ''c''])
   \<and> targetSum (demoState Classic [''a'', ''c''])
       < currentSum (selectedBlocks (grid (demoState Classic [''a'', ''c'']))
           (toggleId (id_b (mkBlock ''d'' 8 9 3)) (selectedIds (demoState Classic [''a'', ''c'']))))
   \<and> handleBlockClick False (drawsFrom []) (demoState Classic [''a'', ''c'']) (mkBlock ''d'' 8 9 3)
       = Some ((demoState Classic [''a'', ''c''])\<lparr>selectedIds := [], combo := 0\<rparr>, drawsFrom [])"
proof -
  let ?s = "demoState Classic [''a'', ''c'']" and ?b = "mkBlock ''d'' 8 9 3"
  have h1: "\<not> isGameOver ?s" by (simp add: demoState_def)
  have h2: "targetSum ?s < currentSum (selectedBlocks (grid ?s) (toggleId (id_b ?b) (selectedIds ?s)))"
    by code_simp
  from exceeded_resets_selection [OF h1 h2, of "drawsFrom []"] h1 h2 show ?thesis by simp
qed


lemma length_selectedBlocks:
  assumes "\<forall>i \<in> set ids. findBlock i g \<noteq> None"
  shows "length (selectedBlocks g ids) = length ids"
proof -
  have "filter (\<lambda>c. c \<noteq> None) (map (\<lambda>i. findBlock i g) ids) = map (\<lambda>i. findBlock i g) ids"
    using assms by (simp add: filter_id_conv)
  then show ?thesis by (simp add: selectedBlocks_def)
qed

lemma set_toggleId: "set (toggleId i ids) \<subseteq> insert i (set ids)"
  by (auto simp: toggleId_def)

text \<open>
  Claim C4, as amended. A successful match adds
  \<open>targetSum * (number of selected ids) * (combo + 1)\<close> to the score, with the target sum
  and the combo of the state before; afterwards \<open>highScore\<close> is the maximum of the old high
  score and the new score, \<open>combo\<close> is one more and \<open>selectedIds\<close> is empty. The number of
  selected ids is the number of selected blocks when every selected id is the id of a block
  on the grid; an id that is not is left out of the sum and still counted in the factor.
\<close>

theorem match_scoring:
  assumes "\<not> isGameOver s" and "wellShaped (grid s)"
    and "currentSum (selectedBlocks (grid s) (toggleId (id_b b) (selectedIds s))) = targetSum s"
  shows "\<exists>s' r'. handleBlockClick False r s b = Some (s', r')
         \<and> score s' = score s
              + targetSum s * int (length (toggleId (id_b b) (selectedIds s))) * (combo s + 1)
         \<and> highScore s' = max (highScore s) (score s')
         \<and> combo s' = combo s + 1
         \<and> selectedIds s' = []
         \<and> ((\<forall>i \<in> set (toggleId (id_b b) (selectedIds s)). findBlock i (grid s) \<noteq> None) \<longrightarrow>
               length (selectedBlocks (grid s) (toggleId (id_b b) (selectedIds s)))
                 = length (toggleId (id_b b) (selectedIds s)))"
proof -
  let ?ids = "toggleId (id_b b) (selectedIds s)"
  obtain s' r' where
    s: "success r s ?ids = Some (s', r')" and
    sc: "score s' = score s + targetSum s * int (length ?ids) * (combo s + 1)" and
    hs: "highScore s' = max (score s + targetSum s * int (length ?ids) * (combo s + 1)) (highScore s)" and
    co: "combo s' = combo s + 1" and se: "selectedIds s' = []"
    using success_result [OF assms(2), of ?ids r] by fastforce
  have "handleBlockClick False r s b = Some (s', r')"
    using handleBlockClick_match [OF assms(1) assms(3)] s by simp
  then show ?thesis using sc hs co se length_selectedBlocks [of ?ids "grid s"]
    by (auto simp: max.commute)
qed

theorem match_scoring_witness:
  "\<not> isGameOver (demoState Time [''a'']) \<and> wellShaped (grid (demoState Time [''a'']))
   \<and> targetSum (demoState Time [''a'']) = 10 \<and> combo (demoState Time [''a'']) = 0
   \<and> toggleId (id_b (mkBlock ''b'' 6 9 1)) (selectedIds (demoState Time [''a''])) = [''a'', ''b'']
   \<and> list_all (\<lambda>i. findBlock i demoGrid \<noteq> None) [''a'', ''b'']
   \<and> map value_b (selectedBlocks demoGrid [''a'', ''b'']) = [4, 6]
   \<and> (\<exists>s' r'. handleBlockClick False (drawsFrom []) (demoState Time [''a'']) (mkBlock ''b'' 6 9 1)
                 = Some (s', r')
         \<and> score s' = score (demoState Time [''a'']) + 20
         \<and> highScore s' = 20 \<and> combo s' = 1 \<and> selectedIds s' = [])"
proof -
  let ?s = "demoState Time [''a'']" and ?b = "mkBlock ''b'' 6 9 1"
  have h1: "\<not> isGameOver ?s" by (simp add: demoState_def)
  have h2: "wellShaped (grid ?s)" by code_simp
  have h3: "currentSum (selectedBlocks (grid ?s) (toggleId (id_b ?b) (selectedIds ?s))) = targetSum ?s"
    by code_simp
  have t: "toggleId (id_b ?b) (selectedIds ?s) = [''a'', ''b'']" by code_simp
  have h4: "list_all (\<lambda>i. findBlock i demoGrid \<noteq> None) [''a'', ''b'']" by code_simp
  have v: "map value_b (selectedBlocks demoGrid [''a'', ''b'']) = [4, 6]" by code_simp
  have f: "targetSum ?s = 10" "combo ?s = 0" "score ?s = 0" "highScore ?s = 0"
    by (simp_all add: demoState_def)
  from match_scoring [OF h1 h2 h3, of "drawsFrom []"] show ?thesis
    unfolding t using h1 h2 h4 v f by auto
qed

text \<open>
  The claim C4 as stated fails: with target 10, combo 0 and the selected blocks 4 and 6,
  but a third selected id that is the id of no block on the grid, 30 points are added.
\<close>

theorem stale_id_counts_in_points:
  "targetSum (demoState Time [''zz'', ''a'']) = 10 \<and> combo (demoState Time [''zz'', ''a'']) = 0
   \<and> score (demoState Time [''zz'', ''a'']) = 0
   \<and> map value_b (selectedBlocks (grid (demoState Time [''zz'', ''a'']))
         (toggleId (id_b (mkBlock ''b'' 6 9 1)) (selectedIds (demoState Time [''zz'', ''a'']))))
       = [4, 6]
   \<and> map_option (\<lambda>sr. score (fst sr))
         (handleBlockClick False (drawsFrom []) (demoState Time [''zz'', ''a'']) (mkBlock ''b'' 6 9 1))
       = Some 30"
proof -
  let ?s = "demoState Time [''zz'', ''a'']" and ?b = "mkBlock ''b'' 6 9 1"
  have h1: "\<not> isGameOver ?s" by (simp add: demoState_def)
  have h2: "wellShaped (grid ?s)" by code_simp
  have h3: "currentSum (selectedBlocks (grid ?s) (toggleId (id_b ?b) (selectedIds ?s))) = targetSum ?s"
    by code_simp
  have v: "map value_b (selectedBlocks (grid ?s) (toggleId (id_b ?b) (selectedIds ?s))) = [4, 6]"
    by code_simp
  have l: "length (toggleId (id_b ?b) (selectedIds ?s)) = 3" by code_simp
  have f: "targetSum ?s = 10" "combo ?s = 0" "score ?s = 0"
    by (simp_all add: demoState_def)
  obtain s' r' where
    s: "success (drawsFrom []) ?s (toggleId (id_b ?b) (selectedIds ?s)) = Some (s', r')" and
    sc: "score s' = score ?s + targetSum ?s * int (length (toggleId (id_b ?b) (selectedIds ?s)))
                      * (combo ?s + 1)"
    using success_result [OF h2, of "toggleId (id_b ?b) (selectedIds ?s)" "drawsFrom []"]
    by fastforce
  have "handleBlockClick False (drawsFrom []) ?s ?b = Some (s', r')"
    using handleBlockClick_match [OF h1 h3] s by simp
  moreover have "score s' = 30" using sc unfolding l f by simp
  ultimately show ?thesis using v f by simp
qed

text \<open>
  Claim C6. After a successful match the new target sum is \<open>getTargetSum\<close> of the level
  before the match (drawn after the draws of the added row, if any), the new level is
  \<open>floor (newScore / 1000) + 1\<close>, and in time mode \<open>timeLeft\<close> and \<open>maxTime\<close> are
  \<open>max 5 (10 - floor (level / 2))\<close> of the level before the match.
\<close>

theorem target_uses_previous_level:
  assumes "\<not> isGameOver s" and "wellShaped (grid s)"
    and "currentSum (selectedBlocks (grid s) (toggleId (id_b b) (selectedIds s))) = targetSum s"
  shows "\<exists>gravityGrid finalGrid over r1 s' r'.
           applyGravity (removeSelected (toggleId (id_b b) (selectedIds s)) (grid s)) = Some gravityGrid
         \<and> addRowAfterSuccess (mode s) r gravityGrid = Some (finalGrid, over, r1)
         \<and> handleBlockClick False r s b = Some (s', r')
         \<and> (targetSum s', r') = getTargetSum (level s) r1
         \<and> score s' = score s
              + targetSum s * int (length (toggleId (id_b b) (selectedIds s))) * (combo s + 1)
         \<and> level s' = score s' div 1000 + 1
         \<and> (mode s = Time \<longrightarrow>
               timeLeft s' = Some (of_int (max 5 (10 - level s div 2)))
             \<and> maxTime s' = Some (of_int (max 5 (10 - level s div 2))))"
proof -
  let ?ids = "toggleId (id_b b) (selectedIds s)"
  let ?new = "score s + targetSum s * int (length ?ids) * (combo s + 1)"
  obtain g1 finalGrid over r1 s' r' where
    g1: "applyGravity (removeSelected ?ids (grid s)) = Some g1" and
    a: "addRowAfterSuccess (mode s) r g1 = Some (finalGrid, over, r1)" and
    s: "success r s ?ids = Some (s', r')" and
    t: "targetSum s' = fst (getTargetSum (level s) r1)" and
    r': "r' = snd (getTargetSum (level s) r1)" and
    sc: "score s' = ?new" and
    lv: "level s' = ?new div 1000 + 1" and
    tl: "timeLeft s' = (if mode s = Time then Some (nextMaxTime (level s)) else None)" and
    mt: "maxTime s' = (if mode s = Time then Some (nextMaxTime (level s)) else None)"
    using success_result [OF assms(2), of ?ids r] by fastforce
  have h: "handleBlockClick False r s b = Some (s', r')"
    using handleBlockClick_match [OF assms(1) assms(3)] s by simp
  show ?thesis
    using g1 a h t r' sc lv tl mt by (auto simp: nextMaxTime_def)
qed

theorem target_uses_previous_level_witness:
  "\<not> isGameOver ((demoState Time [''a''])\<lparr>score := 990\<rparr>)
   \<and> level ((demoState Time [''a''])\<lparr>score := 990\<rparr>) = 1
   \<and> (\<exists>s' r'. handleBlockClick False (drawsFrom [3 / 4]) ((demoState Time [''a''])\<lparr>score := 990\<rparr>)
                  (mkBlock ''b'' 6 9 1) = Some (s', r')
         \<and> targetSum s' = fst (getTargetSum 1 (drawsFrom [3 / 4]))
         \<and> score s' = 1010 \<and> level s' = 2
         \<and> timeLeft s' = Some 10 \<and> maxTime s' = Some 10)"
proof -
  let ?s = "(demoState Time [''a''])\<lparr>score := 990\<rparr>" and ?b = "mkBlock ''b'' 6 9 1"
  have h1: "\<not> isGameOver ?s" by (simp add: demoState_def)
  have h2: "wellShaped (grid ?s)" by code_simp
  have h3: "currentSum (selectedBlocks (grid ?s) (toggleId (id_b ?b) (selectedIds ?s))) = targetSum ?s"
    by code_simp
  have l: "length (toggleId (id_b ?b) (selectedIds ?s)) = 2" by code_simp
  have f: "targetSum ?s = 10" "combo ?s = 0" "score ?s = 990" "level ?s = 1" "mode ?s = Time"
    by (simp_all add: demoState_def)
  have a: "\<And>g fg over r1. addRowAfterSuccess (mode ?s) (drawsFrom [3 / 4]) g = Some (fg, over, r1)
             \<Longrightarrow> r1 = drawsFrom [3 / 4]"
    unfolding f by (simp add: addRowAfterSuccess_def)
  from target_uses_previous_level [OF h1 h2 h3, of "drawsFrom [3 / 4]"]
  obtain gravityGrid finalGrid over r1 s' r' where
    ar: "addRowAfterSuccess (mode ?s) (drawsFrom [3 / 4]) gravityGrid = Some (finalGrid, over, r1)" and
    hb: "handleBlockClick False (drawsFrom [3 / 4]) ?s ?b = Some (s', r')" and
    ts: "(targetSum s', r') = getTargetSum (level ?s) r1" and
    sc: "score s' = score ?s + targetSum ?s * int (length (toggleId (id_b ?b) (selectedIds ?s))) * (combo ?s + 1)" and
    lv: "level s' = score s' div 1000 + 1" and
    tm: "mode ?s = Time \<longrightarrow>
               timeLeft s' = Some (of_int (max 5 (10 - level ?s div 2)))
             \<and> maxTime s' = Some (of_int (max 5 (10 - level ?s div 2)))"
    by blast
  have r1: "r1 = drawsFrom [3 / 4]" using a [OF ar] .
  have sc': "score s' = 1010" using sc unfolding l f by simp
  have lv': "level s' = 2" using lv sc' by simp
  have ts': "targetSum s' = fst (getTargetSum 1 (drawsFrom [3 / 4]))"
    using ts r1 f(4) by (metis fst_conv)
  have tm': "timeLeft s' = Some 10 \<and> maxTime s' = Some 10"
    using tm f by simp
  show ?thesis using h1 f(4) hb ts' sc' lv' tm' by blast
qed

subsection \<open>Invariants of a run\<close>

lemma shape_initGame_fold:
  "map length (fst (fold (\<lambda>i (g, r).
               (let rowIdx = GRID_ROWS - 1 - i;
                    (newRow, r') = generateRow rowIdx r
                in (fold (\<lambda>j g. setCell g rowIdx j (newRow ! j)) [0..<GRID_COLS] g, r')))
              xs (g, r))) = map length g"
  by (induction xs arbitrary: g r) (auto simp: Let_def shape_fold shape_setCell split: prod.splits)

lemma wellShaped_initGame: "wellShaped (grid (fst (initGame m saved r)))"
  using shape_initGame_fold [of "[0..<INITIAL_ROWS]" createEmptyGrid r] wellShaped_createEmptyGrid
  by (auto simp: initGame_def wellShaped_def Let_def split: prod.splits)

lemma handleBlockClick_shape:
  assumes "wellShaped (grid s)"
  shows "\<exists>s' r'. handleBlockClick isPaused r s b = Some (s', r') \<and> wellShaped (grid s')"
proof -
  let ?ids = "toggleId (id_b b) (selectedIds s)"
  obtain s' r' where "success r s ?ids = Some (s', r')" "wellShaped (grid s')"
    using success_result [OF assms, of ?ids r] by fastforce
  then show ?thesis using assms by (auto simp: handleBlockClick_def Let_def)
qed

lemma tickUpdate_shape:
  assumes "wellShaped (grid s)"
  shows "\<exists>s' r'. tickUpdate r s = Some (s', r') \<and> wellShaped (grid s')"
proof -
  obtain over where o: "checkGameOver (grid s) = Some over"
    using checkGameOver_defined [OF assms] by blast
  obtain g2 r1 where sh: "shiftUp r (grid s) = Some (g2, r1)"
    using shiftUp_defined [of "grid s" r] assms by (auto simp: wellShaped_length)
  then have w2: "wellShaped g2" by (rule wellShaped_shiftUp)
  then obtain over2 where o2: "checkGameOver g2 = Some over2"
    using checkGameOver_defined by blast
  show ?thesis
    using assms o sh w2 o2 by (auto simp: tickUpdate_def split: option.splits bool.splits)
qed

lemma step_shape:
  assumes "wellShaped (grid s)"
  shows "\<exists>s' r'. step e r s = Some (s', r') \<and> wellShaped (grid s')"
proof (cases e)
  case (BlockClicked p b)
  then show ?thesis using handleBlockClick_shape [OF assms] by simp
next
  case TimerTick
  then show ?thesis using tickUpdate_shape [OF assms] by simp
qed

lemma run_shape:
  assumes "wellShaped (grid s)"
  shows "\<exists>s' r'. run es (s, r) = Some (s', r') \<and> wellShaped (grid s')"
  using assms
proof (induction es arbitrary: s r)
  case Nil
  then show ?case by simp
next
  case (Cons e es)
  obtain s1 r1 where st: "step e r s = Some (s1, r1)" and w1: "wellShaped (grid s1)"
    using step_shape [OF Cons.prems] by blast
  from Cons.IH [OF w1, of r1] st show ?case by simp
qed

text \<open>
  Claim C9. Whatever the mode, the stored high score, the draws and the sequence of clicks
  (paused or not) and ticks, the run from \<open>initGame\<close> never throws, and the grid of the state
  it reaches has exactly \<open>GRID_ROWS = 10\<close> rows of exactly \<open>GRID_COLS = 6\<close> cells.
\<close>

theorem grid_shape_invariant:
  "\<exists>s r'. run es (initGame m saved r) = Some (s, r')
         \<and> length (grid s) = GRID_ROWS \<and> (\<forall>row \<in> set (grid s). length row = GRID_COLS)"
proof -
  obtain s0 r0 where i: "initGame m saved r = (s0, r0)" by (cases "initGame m saved r")
  then have "wellShaped (grid s0)" using wellShaped_initGame [of m saved r] by simp
  then obtain s r' where "run es (s0, r0) = Some (s, r')" "wellShaped (grid s)"
    using run_shape by blast
  then show ?thesis using i wellShaped_length wellShaped_rows by auto
qed

theorem grid_shape_invariant_witness:
  "\<exists>s r'. run [TimerTick, BlockClicked False (mkBlock ''a'' 4 9 0)]
              (initGame Time None (drawsFrom [])) = Some (s, r')
         \<and> length (grid s) = 10 \<and> list_all (\<lambda>row. length row = 6) (grid s)"
  using grid_shape_invariant
    [of "[TimerTick, BlockClicked False (mkBlock ''a'' 4 9 0)]" Time None "drawsFrom []"]
  by (simp add: GRID_ROWS_def GRID_COLS_def list_all_iff)

text \<open>
  The data model's invariant on the selection: in a run from \<open>initGame\<close> whose clicks are
  all on blocks of the grid, every selected id is the id of a block on the grid. A click on
  a block that has left the grid is outside this lemma.
\<close>

lemma handleBlockClick_selectionResolves:
  assumes "selectionResolves s" and "findBlock (id_b b) (grid s) \<noteq> None"
    and "handleBlockClick isPaused r s b = Some (s', r')"
  shows "selectionResolves s'"
proof -
  let ?ids = "toggleId (id_b b) (selectedIds s)"
  have sub: "set ?ids \<subseteq> insert (id_b b) (set (selectedIds s))" by (rule set_toggleId)
  have keep: "selectionResolves (s\<lparr>selectedIds := ?ids\<rparr>)"
    using assms(1,2) sub by (auto simp: selectionResolves_def list_all_iff)
  have clear: "selectedIds s' = [] \<Longrightarrow> selectionResolves s'"
    by (simp add: selectionResolves_def)
  have succ: "success r s ?ids = Some (s', r') \<Longrightarrow> selectedIds s' = []"
    by (auto simp: success_def Let_def split: option.splits prod.splits)
  show ?thesis
    using assms(1,3) keep clear succ
    by (auto simp: handleBlockClick_def Let_def split: if_splits)
qed

lemma tickUpdate_selectionResolves:
  assumes "selectionResolves s" and "tickUpdate r s = Some (s', r')"
  shows "selectionResolves s'"
  using assms
  by (auto simp: tickUpdate_def selectionResolves_def
      split: if_splits option.splits bool.splits)

lemma run_selectionResolves:
  assumes "selectionResolves s" and "clicksOnGrid es (s, r)" and "run es (s, r) = Some (s', r')"
  shows "selectionResolves s'"
  using assms
proof (induction es arbitrary: s r)
  case Nil
  then show ?case by simp
next
  case (Cons e es)
  from Cons.prems(3) obtain s1 r1 where st: "step e r s = Some (s1, r1)"
    and rest: "run es (s1, r1) = Some (s', r')"
    by (auto split: option.splits)
  have c: "clicksOnGrid es (s1, r1)" using Cons.prems(2) st by simp
  have "selectionResolves s1"
  proof (cases e)
    case (BlockClicked p b)
    then show ?thesis
      using Cons.prems(1,2) st handleBlockClick_selectionResolves [of s b p r s1 r1] by simp
  next
    case TimerTick
    then show ?thesis using Cons.prems(1) st tickUpdate_selectionResolves [of s r s1 r1] by simp
  qed
  then show ?case using Cons.IH c rest by blast
qed

lemma selection_resolves_in_play:
  assumes "clicksOnGrid es (initGame m saved r)" and "run es (initGame m saved r) = Some (s, r')"
  shows "\<forall>i \<in> set (selectedIds s). findBlock i (grid s) \<noteq> None"
proof -
  obtain s0 r0 where i: "initGame m saved r = (s0, r0)" by (cases "initGame m saved r")
  then have "selectedIds s0 = []" by (auto simp: initGame_def Let_def split: prod.splits)
  then have "selectionResolves s0" by (simp add: selectionResolves_def)
  then have "selectionResolves s" using run_selectionResolves assms i by metis
  then show ?thesis by (simp add: selectionResolves_def list_all_iff)
qed

subsection \<open>The timer\<close>

lemma countdown_numeral:
  "countdown (numeral k) t =
     (if t \<le> 0 then None else countdown (pred_numeral k) (fsub t (fl (1 / 10))))"
  by (simp add: numeral_eq_Suc)

lemma countdown_100: "countdown 100 10 = Some (677 / 2 ^ 55)"
  by (simp add: countdown_numeral fl_tenth fl_eval)

lemma fsub_101: "fsub (677 / 2 ^ 55) (fl (1 / 10)) = - (450359962736965 / 4503599627370496)"
  by (simp add: fl_tenth fl_eval)

lemma countdown_Suc_end:
  "countdown (Suc n) t =
     (case countdown n t of
        None \<Rightarrow> None
      | Some u \<Rightarrow> if u \<le> 0 then None else Some (fsub u (fl (1 / 10))))"
proof (induction n arbitrary: t)
  case 0
  show ?case by simp
next
  case (Suc n)
  have "countdown (Suc (Suc n)) t =
          (if t \<le> 0 then None else countdown (Suc n) (fsub t (fl (1 / 10))))"
    by simp
  also have "\<dots> = (if t \<le> 0 then None
                   else (case countdown n (fsub t (fl (1 / 10))) of
                           None \<Rightarrow> None
                         | Some u \<Rightarrow> if u \<le> 0 then None else Some (fsub u (fl (1 / 10)))))"
    by (simp only: Suc.IH)
  also have "\<dots> = (case countdown (Suc n) t of
                      None \<Rightarrow> None
                    | Some u \<Rightarrow> if u \<le> 0 then None else Some (fsub u (fl (1 / 10))))"
    by simp
  finally show ?case .
qed

lemma tick_decrements:
  assumes "mode s = Time" and "\<not> isGameOver s" and "timeLeft s = Some t" and "0 < t"
  shows "tickUpdate r s = Some (s\<lparr>timeLeft := Some (fsub t (fl (1 / 10)))\<rparr>, r)"
    and "\<not> forcesRow (TimerTick) s"
  using assms by (simp_all add: tickUpdate_def)

lemma run_countdown:
  assumes "mode s = Time" and "\<not> isGameOver s" and "timeLeft s = Some t"
    and "countdown n t = Some t'"
  shows "run (replicate n (TimerTick)) (s, r) = Some (s\<lparr>timeLeft := Some t'\<rparr>, r)
       \<and> injections (replicate n (TimerTick)) (s, r) = 0"
  using assms
proof (induction n arbitrary: s t)
  case 0
  then show ?case by simp
next
  case (Suc n)
  from Suc.prems(4) have pos: "0 < t" and c: "countdown n (fsub t (fl (1 / 10))) = Some t'"
    by (auto split: if_splits)
  let ?s1 = "s\<lparr>timeLeft := Some (fsub t (fl (1 / 10)))\<rparr>"
  have t: "tickUpdate r s = Some (?s1, r)" and f: "\<not> forcesRow (TimerTick) s"
    using tick_decrements [OF Suc.prems(1-3) pos] by simp_all
  have "run (replicate n (TimerTick)) (?s1, r) = Some (?s1\<lparr>timeLeft := Some t'\<rparr>, r)
       \<and> injections (replicate n (TimerTick)) (?s1, r) = 0"
    using Suc.IH [of ?s1 "fsub t (fl (1 / 10))"] Suc.prems(1,2) c by simp
  then show ?case using t f by simp
qed

lemma run_append:
  "run (es @ fs) sr = (case run es sr of None \<Rightarrow> None | Some sr' \<Rightarrow> run fs sr')"
proof (induction es arbitrary: sr)
  case Nil
  then show ?case by simp
next
  case (Cons e es)
  then show ?case by (cases sr) (simp split: option.splits)
qed

lemma injections_append:
  "injections (es @ fs) sr =
     injections es sr + (case run es sr of None \<Rightarrow> 0 | Some sr' \<Rightarrow> injections fs sr')"
proof (induction es arbitrary: sr)
  case Nil
  then show ?case by (cases sr) simp
next
  case (Cons e es)
  then show ?case by (cases sr) (simp split: option.splits)
qed

lemma tick_forces_row:
  assumes "mode s = Time" and "\<not> isGameOver s" and "timeLeft s = Some t" and "t \<le> 0"
    and "wellShaped (grid s)" and "checkGameOver (grid s) = Some False"
  shows "forcesRow (TimerTick) s"
    and "\<exists>s' r'. tickUpdate r s = Some (s', r') \<and> shiftUp r (grid s) = Some (grid s', r')
           \<and> checkGameOver (grid s') = Some (isGameOver s')
           \<and> combo s' = 0 \<and> selectedIds s' = []
           \<and> timeLeft s' = Some (nextMaxTime (level s)) \<and> maxTime s' = Some (nextMaxTime (level s))"
proof -
  show "forcesRow (TimerTick) s" using assms by simp
  obtain g2 r1 where sh: "shiftUp r (grid s) = Some (g2, r1)"
    using shiftUp_defined [of "grid s" r] assms(5) by (auto simp: wellShaped_length)
  then have "wellShaped g2" by (rule wellShaped_shiftUp)
  then obtain over2 where "checkGameOver g2 = Some over2"
    using checkGameOver_defined by blast
  with sh assms show "\<exists>s' r'. tickUpdate r s = Some (s', r') \<and> shiftUp r (grid s) = Some (grid s', r')
           \<and> checkGameOver (grid s') = Some (isGameOver s')
           \<and> combo s' = 0 \<and> selectedIds s' = []
           \<and> timeLeft s' = Some (nextMaxTime (level s)) \<and> maxTime s' = Some (nextMaxTime (level s))"
    by (simp add: tickUpdate_def)
qed

text \<open>
  Claim C2, as amended. A tick forces a row only when it finds \<open>timeLeft\<close> at most 0 on
  entry; otherwise it subtracts \<^verbatim>\<open>0.1\<close>. From \<open>timeLeft = 10\<close>, in time mode, each of the first
  100 ticks finds it positive, so none of them forces a row, and they leave
  \<open>timeLeft = 677 / 2^55\<close>, a rounding residue above zero. Tick 101 subtracts once more, and
  tick 102 is the one that forces the row (when row 0 is free): it applies \<open>shiftUp\<close>, resets
  \<open>combo\<close> to 0, clears the selection and sets \<open>timeLeft\<close> and \<open>maxTime\<close> to
  \<open>max 5 (10 - floor (level / 2))\<close>.
\<close>

theorem forced_row_at_tick_102:
  assumes "mode s = Time" and "\<not> isGameOver s" and "timeLeft s = Some 10"
    and "wellShaped (grid s)" and "checkGameOver (grid s) = Some False"
  shows "run (replicate 100 (TimerTick)) (s, r) = Some (s\<lparr>timeLeft := Some (677 / 2 ^ 55)\<rparr>, r)
       \<and> injections (replicate 100 (TimerTick)) (s, r) = 0
       \<and> injections (replicate 101 (TimerTick)) (s, r) = 0
       \<and> injections (replicate 102 (TimerTick)) (s, r) = 1
       \<and> (\<exists>s' r'. run (replicate 102 (TimerTick)) (s, r) = Some (s', r')
             \<and> shiftUp r (grid s) = Some (grid s', r')
             \<and> combo s' = 0 \<and> selectedIds s' = []
             \<and> timeLeft s' = Some (of_int (max 5 (10 - level s div 2)))
             \<and> maxTime s' = Some (of_int (max 5 (10 - level s div 2))))"
proof -
  let ?T = "TimerTick"
  let ?t101 = "- (450359962736965 / 4503599627370496) :: rat"
  let ?s101 = "s\<lparr>timeLeft := Some ?t101\<rparr>"
  have c101: "countdown 101 10 = Some ?t101"
    using countdown_Suc_end [of 100 10] countdown_100 fsub_101 by simp
  have r100: "run (replicate 100 ?T) (s, r) = Some (s\<lparr>timeLeft := Some (677 / 2 ^ 55)\<rparr>, r)"
    and i100: "injections (replicate 100 ?T) (s, r) = 0"
    using run_countdown [OF assms(1-3) countdown_100, of r] by simp_all
  have r101: "run (replicate 101 ?T) (s, r) = Some (?s101, r)"
    and i101: "injections (replicate 101 ?T) (s, r) = 0"
    using run_countdown [OF assms(1-3) c101, of r] by simp_all
  have f: "forcesRow ?T ?s101"
    and "\<exists>s' r'. tickUpdate r ?s101 = Some (s', r') \<and> shiftUp r (grid ?s101) = Some (grid s', r')
           \<and> checkGameOver (grid s') = Some (isGameOver s')
           \<and> combo s' = 0 \<and> selectedIds s' = []
           \<and> timeLeft s' = Some (nextMaxTime (level ?s101)) \<and> maxTime s' = Some (nextMaxTime (level ?s101))"
    using tick_forces_row(1) [of ?s101 ?t101] tick_forces_row(2) [of ?s101 ?t101 r] assms
    by simp_all
  then obtain s' r' where t: "tickUpdate r ?s101 = Some (s', r')"
    and sh: "shiftUp r (grid s) = Some (grid s', r')"
    and cs: "combo s' = 0" "selectedIds s' = []"
      "timeLeft s' = Some (of_int (max 5 (10 - level s div 2)))"
      "maxTime s' = Some (of_int (max 5 (10 - level s div 2)))"
    by (auto simp: nextMaxTime_def)
  have split: "replicate 102 ?T = replicate 101 ?T @ [?T]"
  proof -
    have "replicate (101 + 1) ?T = replicate 101 ?T @ replicate 1 ?T"
      by (rule replicate_add)
    then show ?thesis by (simp del: replicate_append_same)
  qed
  have r102: "run (replicate 102 ?T) (s, r) = Some (s', r')"
    unfolding split run_append using r101 t by simp
  have i102: "injections (replicate 102 ?T) (s, r) = 1"
    unfolding split injections_append using r101 i101 f t by simp
  show ?thesis using r100 i100 i101 i102 r102 sh cs by blast
qed


theorem forced_row_at_tick_102_witness:
  "mode (demoState Time [''a'']) = Time \<and> \<not> isGameOver (demoState Time [''a''])
   \<and> timeLeft (demoState Time [''a'']) = Some 10 \<and> wellShaped (grid (demoState Time [''a'']))
   \<and> checkGameOver (grid (demoState Time [''a''])) = Some False
   \<and> injections (replicate 100 TimerTick) (demoState Time [''a''], drawsFrom []) = 0
   \<and> injections (replicate 102 TimerTick) (demoState Time [''a''], drawsFrom []) = 1
   \<and> (\<exists>s' r'. run (replicate 102 TimerTick) (demoState Time [''a''], drawsFrom []) = Some (s', r')
         \<and> combo s' = 0 \<and> selectedIds s' = [] \<and> timeLeft s' = Some 10 \<and> maxTime s' = Some 10)"
proof -
  let ?s = "demoState Time [''a'']"
  have h1: "mode ?s = Time" and h2: "\<not> isGameOver ?s" and h3: "timeLeft ?s = Some 10"
    and l: "level ?s = 1"
    by (simp_all add: demoState_def)
  have h4: "wellShaped (grid ?s)" by code_simp
  have h5: "checkGameOver (grid ?s) = Some False" by code_simp
  from forced_row_at_tick_102 [OF h1 h2 h3 h4 h5, of "drawsFrom []"] h1 h2 h3 h4 h5
  show ?thesis unfolding l by auto
qed

text \<open>
  The claim C2 as stated fails: 100 ticks from \<open>timeLeft = 10\<close> force no row, and the combo
  (here 3) and the selection are untouched.
\<close>

theorem no_forced_row_in_100_ticks:
  "timeLeft ((demoState Time [''a''])\<lparr>combo := 3\<rparr>) = Some 10
   \<and> injections (replicate 100 (TimerTick)) ((demoState Time [''a''])\<lparr>combo := 3\<rparr>, drawsFrom []) = 0
   \<and> run (replicate 100 (TimerTick)) ((demoState Time [''a''])\<lparr>combo := 3\<rparr>, drawsFrom [])
       = Some ((demoState Time [''a''])\<lparr>combo := 3, timeLeft := Some (677 / 2 ^ 55)\<rparr>, drawsFrom [])"
proof -
  let ?s = "(demoState Time [''a''])\<lparr>combo := 3\<rparr>"
  have h1: "mode ?s = Time" and h2: "\<not> isGameOver ?s" and h3: "timeLeft ?s = Some 10"
    by (simp_all add: demoState_def)
  from run_countdown [OF h1 h2 h3 countdown_100, of "drawsFrom []"] h3 show ?thesis by simp
qed

subsection \<open>Created blocks\<close>

lemma bitlen_pos: "0 < m \<Longrightarrow> 1 \<le> bitlen m"
  using bitlen_eq_zero_iff [of m] bitlen_nonneg [of m] by linarith

lemma expo_lower:
  assumes "0 < x"
  shows "2 powi (expo x) \<le> x"
proof (cases "1 \<le> x")
  case True
  let ?m = "\<lfloor>x\<rfloor>"
  have m: "0 < ?m" using True by simp
  have b: "1 \<le> bitlen ?m" using m by (rule bitlen_pos)
  have "(2::int) ^ nat (bitlen ?m - 1) \<le> ?m" using bitlen_bounds [OF m] by simp
  then have "rat_of_int (2 ^ nat (bitlen ?m - 1)) \<le> rat_of_int ?m" by (simp only: of_int_le_iff)
  also have "\<dots> \<le> x" by simp
  finally have "(2::rat) ^ nat (bitlen ?m - 1) \<le> x" by simp
  moreover have "(2::rat) powi (expo x) = 2 ^ nat (bitlen ?m - 1)"
    using True b by (simp add: expo_def power_int_def)
  ultimately show ?thesis by simp
next
  case False
  let ?c = "\<lceil>1 / x\<rceil>"
  let ?m = "?c - 1"
  have "1 < 1 / x" using False assms by simp
  then have m: "0 < ?m" by simp
  have b: "0 \<le> bitlen ?m" by (rule bitlen_nonneg)
  have "?m < 2 ^ nat (bitlen ?m)" using bitlen_bounds [OF m] by simp
  then have "?c \<le> 2 ^ nat (bitlen ?m)" by simp
  then have "rat_of_int ?c \<le> rat_of_int (2 ^ nat (bitlen ?m))" by (simp only: of_int_le_iff)
  also have "\<dots> = 2 ^ nat (bitlen ?m)" by simp
  finally have "rat_of_int ?c \<le> 2 ^ nat (bitlen ?m)" .
  moreover have "1 / x \<le> rat_of_int ?c" by (rule le_of_int_ceiling)
  ultimately have "1 / x \<le> 2 ^ nat (bitlen ?m)" by (rule order_trans [rotated])
  then have "1 \<le> x * 2 ^ nat (bitlen ?m)"
    using assms by (simp add: field_simps)
  then have "inverse (2 ^ nat (bitlen ?m)) \<le> x"
    by (simp add: field_simps)
  moreover have "(2::rat) powi (expo x) = inverse (2 ^ nat (bitlen ?m))"
  proof -
    have "(2::rat) powi (bitlen ?m) = 2 ^ nat (bitlen ?m)" using b by (simp add: power_int_def)
    moreover have "(2::rat) powi (- bitlen ?m) = inverse (2 powi (bitlen ?m))"
      by (rule power_int_minus)
    ultimately show ?thesis using False by (simp add: expo_def)
  qed
  ultimately show ?thesis by simp
qed

lemma ulp_pos: "0 < ulp x"
  by (simp add: ulp_def)

lemma ulp_le:
  assumes "0 < x"
  shows "ulp x \<le> x / 2 ^ 52 \<or> ulp x = 1 / 2 ^ 1074"
proof (cases "- 1022 \<le> expo x")
  case True
  then have "ulp x = 2 powi (expo x - 52)" by (simp add: ulp_def max_def)
  also have "\<dots> = 2 powi (expo x) / 2 ^ 52" by (simp add: power_int_diff)
  also have "\<dots> \<le> x / 2 ^ 52" using expo_lower [OF assms] by (simp add: divide_right_mono)
  finally show ?thesis by simp
next
  case False
  then have "ulp x = 2 powi (- 1074)" by (simp add: ulp_def max_def)
  then show ?thesis by (simp add: power_int_minus_divide)
qed

lemma roundHalfEven_upper: "of_int (roundHalfEven z) \<le> z + 1 / 2"
proof -
  have le: "rat_of_int \<lfloor>z\<rfloor> \<le> z" by simp
  consider (below) "z - of_int \<lfloor>z\<rfloor> < 1 / 2" | (above) "1 / 2 < z - of_int \<lfloor>z\<rfloor>"
    | (tie) "z - of_int \<lfloor>z\<rfloor> = 1 / 2" by linarith
  then show ?thesis
  proof cases
    case below
    then have "roundHalfEven z = \<lfloor>z\<rfloor>" by (simp add: roundHalfEven_def Let_def)
    then show ?thesis using le by linarith
  next
    case above
    then have "roundHalfEven z = \<lfloor>z\<rfloor> + 1" by (simp add: roundHalfEven_def Let_def)
    then have "rat_of_int (roundHalfEven z) = of_int \<lfloor>z\<rfloor> + 1" by simp
    then show ?thesis using above by linarith
  next
    case tie
    then have "roundHalfEven z = \<lfloor>z\<rfloor> \<or> roundHalfEven z = \<lfloor>z\<rfloor> + 1"
      by (simp add: roundHalfEven_def Let_def)
    then have "rat_of_int (roundHalfEven z) = of_int \<lfloor>z\<rfloor>
             \<or> rat_of_int (roundHalfEven z) = of_int \<lfloor>z\<rfloor> + 1" by auto
    then show ?thesis using tie by linarith
  qed
qed

lemma roundHalfEven_nonneg: "0 \<le> z \<Longrightarrow> 0 \<le> roundHalfEven z"
  by (auto simp: roundHalfEven_def Let_def)

lemma fl_upper:
  assumes "0 < x"
  shows "fl x \<le> x + ulp x / 2"
proof -
  have "of_int (roundHalfEven (x / ulp x)) * ulp x \<le> (x / ulp x + 1 / 2) * ulp x"
    using roundHalfEven_upper [of "x / ulp x"] ulp_pos [of x] by (simp only: mult_le_cancel_right_pos)
  also have "\<dots> = x + ulp x / 2"
    using ulp_pos [of x] by (simp add: field_simps)
  finally show ?thesis using assms by (simp add: fl_def)
qed

lemma fl_nonneg:
  assumes "0 \<le> x"
  shows "0 \<le> fl x"
proof (cases "x = 0")
  case True
  then show ?thesis by (simp add: fl_def)
next
  case False
  then have "0 < x" using assms by simp
  moreover have "0 \<le> roundHalfEven (x / ulp x)"
    using assms ulp_pos [of x] by (intro roundHalfEven_nonneg) simp
  ultimately show ?thesis using ulp_pos [of x] by (simp add: fl_def)
qed

lemma fl_draw_times_9:
  assumes "validDraw u"
  shows "0 \<le> fl (u * 9) \<and> fl (u * 9) < 9"
proof (cases "u = 0")
  case True
  then show ?thesis by (simp add: fl_def)
next
  case False
  let ?x = "u * 9"
  have pos: "0 < ?x" and le: "?x \<le> 9 - 9 / 2 ^ 53"
    using assms False by (simp_all add: validDraw_def)
  have up: "fl ?x \<le> ?x + ulp ?x / 2" using fl_upper [OF pos] .
  have "fl ?x < 9"
    using ulp_le [OF pos]
  proof
    assume "ulp ?x \<le> ?x / 2 ^ 52"
    then have "fl ?x \<le> ?x + ?x / 2 ^ 53" using up by simp
    also have "\<dots> = ?x * (1 + 1 / 2 ^ 53)" by (simp add: field_simps)
    also have "\<dots> \<le> (9 - 9 / 2 ^ 53) * (1 + 1 / 2 ^ 53)"
      using le by (intro mult_right_mono) simp_all
    also have "\<dots> < 9" by simp
    finally show ?thesis .
  next
    assume "ulp ?x = 1 / 2 ^ 1074"
    then have "fl ?x \<le> ?x + 1 / 2 ^ 1075" using up by simp
    also have "\<dots> \<le> 9 - 9 / 2 ^ 53 + 1 / 2 ^ 1075" using le by simp
    also have "\<dots> < 9" by simp
    finally show ?thesis .
  qed
  then show ?thesis using fl_nonneg [of ?x] pos by simp
qed

text \<open>
  Claim C7, as amended. The id of a created block is characters 2 to 8 of the base-36
  notation of one draw of \<^verbatim>\<open>Math.random()\<close>, at most seven characters and nothing else: two
  calls that draw the same number get the same id, so ids are not unique by construction.
  When the value argument is omitted, the value lies in \<open>[MIN_VALUE, MAX_VALUE] = [1, 9]\<close>
  (the product of the draw and 9 is rounded to a double before the floor is taken).
\<close>

theorem createBlock_id_and_value:
  assumes "validDraw (draws r 1)"
  shows "id_b (fst (createBlock row col None r)) = substring 2 9 (toString36 r (draws r 0))
       \<and> length (id_b (fst (createBlock row col None r))) \<le> 7
       \<and> MIN_VALUE \<le> value_b (fst (createBlock row col None r))
       \<and> value_b (fst (createBlock row col None r)) \<le> MAX_VALUE"
proof -
  have v: "value_b (fst (createBlock row col None r)) = \<lfloor>fl (draws r 1 * 9)\<rfloor> + 1"
    by (simp add: createBlock_def generateId_def random_def fmul_def MAX_VALUE_def MIN_VALUE_def
        split: prod.splits)
  have i: "id_b (fst (createBlock row col None r)) = substring 2 9 (toString36 r (draws r 0))"
    by (simp add: createBlock_def generateId_def random_def split: prod.splits)
  have "0 \<le> \<lfloor>fl (draws r 1 * 9)\<rfloor>" and "\<lfloor>fl (draws r 1 * 9)\<rfloor> < 9"
    using fl_draw_times_9 [OF assms] by (simp_all add: floor_less_iff)
  then show ?thesis using v i by (simp add: substring_def MAX_VALUE_def MIN_VALUE_def)
qed

theorem createBlock_id_and_value_witness:
  "validDraw (draws (drawsFrom [1 / 2, 3 / 4]) 1)
   \<and> id_b (fst (createBlock 9 0 None (drawsFrom [1 / 2, 3 / 4]))) = ''i''
   \<and> 1 \<le> value_b (fst (createBlock 9 0 None (drawsFrom [1 / 2, 3 / 4])))
   \<and> value_b (fst (createBlock 9 0 None (drawsFrom [1 / 2, 3 / 4]))) \<le> 9"
proof -
  let ?r = "drawsFrom [1 / 2, 3 / 4]"
  have h: "validDraw (draws ?r 1)" by (simp add: validDraw_def drawsFrom_def)
  have i: "substring 2 9 (toString36 ?r (draws ?r 0)) = ''i''" by code_simp
  from createBlock_id_and_value [OF h, of 9 0] h i show ?thesis
    by (simp add: MIN_VALUE_def MAX_VALUE_def)
qed

text \<open>
  The claim C7 as stated fails: when \<^verbatim>\<open>Math.random()\<close> returns 0.5 for the ids of the first
  two blocks of a row, both blocks have the id \<^verbatim>\<open>"i"\<close>.
\<close>

theorem createBlock_id_collision:
  "map (\<lambda>c. map_option id_b c) (take 2 (fst (generateRow 9 (drawsFrom [1 / 2, 1 / 4, 1 / 2, 3 / 4]))))
     = [Some ''i'', Some ''i'']"
  by code_simp

subsection \<open>Invariants of play\<close>

lemma valuesNonneg_setCell:
  assumes "valuesNonneg g" and "cellOk v"
  shows "valuesNonneg (setCell g row col v)"
proof (cases "row < length g")
  case False
  then show ?thesis using assms(1) by (simp add: setCell_def list_update_beyond)
next
  case True
  then have "list_all cellOk (g ! row)" using assms(1) by (simp add: valuesNonneg_def list_all_length)
  then have "list_all cellOk ((g ! row)[col := v])"
    using assms(2) set_update_subset_insert [of "g ! row" col v] by (auto simp: list_all_iff)
  then show ?thesis
    using assms(1) set_update_subset_insert [of g row "(g ! row)[col := v]"]
    by (auto simp: valuesNonneg_def setCell_def list_all_iff)
qed

lemma cellOk_cellAt:
  assumes "valuesNonneg g" and "row < length g"
  shows "cellOk (cellAt g row col)"
  using assms by (auto simp: cellAt_def valuesNonneg_def list_all_length cellOk_def)

lemma cellOk_stamp: "cellOk (Some b) \<Longrightarrow> cellOk (Some (b\<lparr>row_b := r, col_b := c\<rparr>))"
  by (simp add: cellOk_def)

lemma valuesNonneg_gravityRows:
  assumes "valuesNonneg g" and "n \<le> length g" and "valuesNonneg newGrid"
  shows "valuesNonneg (gravityRows g col n t newGrid)"
  using assms(2,3)
proof (induction n arbitrary: t newGrid)
  case 0
  then show ?case by simp
next
  case (Suc n)
  show ?case
  proof (cases "cellAt g n col")
    case None
    then show ?thesis using Suc by simp
  next
    case (Some b)
    have "cellOk (Some b)" using cellOk_cellAt [OF assms(1), of n col] Suc.prems(1) Some by simp
    then have "valuesNonneg (setCell newGrid t col (Some (b\<lparr>row_b := t, col_b := col\<rparr>)))"
      using Suc.prems(2) by (intro valuesNonneg_setCell cellOk_stamp)
    then show ?thesis using Some Suc by simp
  qed
qed

lemma fold_invariant:
  assumes "P h" and "\<And>x h. x \<in> set xs \<Longrightarrow> P h \<Longrightarrow> P (f x h)"
  shows "P (fold f xs h)"
  using assms by (induction xs arbitrary: h) auto

lemma valuesNonneg_createEmptyGrid: "valuesNonneg createEmptyGrid"
  by (simp add: valuesNonneg_def createEmptyGrid_def list_all_iff cellOk_def)

lemma valuesNonneg_applyGravity:
  assumes "valuesNonneg g" and "applyGravity g = Some g'"
  shows "valuesNonneg g'"
proof -
  have len: "GRID_ROWS \<le> length g" using assms(2) by (simp add: applyGravity_def split: if_splits)
  have "valuesNonneg (fold (\<lambda>col newGrid. gravityRows g col GRID_ROWS (GRID_ROWS - 1) newGrid)
                        [0..<GRID_COLS] createEmptyGrid)"
    by (rule fold_invariant [where P = valuesNonneg])
       (simp_all add: valuesNonneg_createEmptyGrid valuesNonneg_gravityRows [OF assms(1) len])
  then show ?thesis using assms(2) len by (simp add: applyGravity_def)
qed

lemma valuesNonneg_removeSelected: "valuesNonneg g \<Longrightarrow> valuesNonneg (removeSelected ids g)"
  by (auto simp: valuesNonneg_def removeSelected_def list_all_iff cellOk_def split: option.splits)

lemma validEngine_random: "validEngine r \<Longrightarrow> validEngine (snd (random r)) \<and> validDraw (fst (random r))"
  by (simp add: validEngine_def random_def)

lemma createBlock_play:
  assumes "validEngine r" and "createBlock row col None r = (b, r')"
  shows "cellOk (Some b) \<and> validEngine r'"
proof -
  have v: "value_b b = \<lfloor>fl (draws r 1 * 9)\<rfloor> + 1" and r': "r' = r\<lparr>draws := \<lambda>n. draws r (Suc (Suc n))\<rparr>"
    using assms(2)
    by (auto simp: createBlock_def generateId_def random_def fmul_def MAX_VALUE_def MIN_VALUE_def
        split: prod.splits)
  have "validDraw (draws r 1)" using assms(1) by (simp add: validEngine_def)
  then have "0 \<le> \<lfloor>fl (draws r 1 * 9)\<rfloor>" using fl_draw_times_9 by simp
  then show ?thesis using v r' assms(1) by (simp add: cellOk_def validEngine_def)
qed

lemma generateCells_play:
  assumes "validEngine r" and "generateCells row cols r = (cs, r')"
  shows "list_all cellOk cs \<and> length cs = length cols \<and> validEngine r'"
  using assms
proof (induction cols arbitrary: r cs r')
  case Nil
  then show ?case by simp
next
  case (Cons c cols)
  obtain b r1 where cb: "createBlock row c None r = (b, r1)" by (cases "createBlock row c None r")
  obtain bs r2 where gc: "generateCells row cols r1 = (bs, r2)" by (cases "generateCells row cols r1")
  have b: "cellOk (Some b)" and v1: "validEngine r1" using createBlock_play [OF Cons.prems(1) cb] by simp_all
  have "list_all cellOk bs \<and> length bs = length cols \<and> validEngine r2" using Cons.IH [OF v1 gc] .
  then show ?case using Cons.prems(2) cb gc b by auto
qed

lemma generateRow_play:
  assumes "validEngine r" and "generateRow row r = (cs, r')"
  shows "list_all cellOk cs \<and> length cs = GRID_COLS \<and> validEngine r'"
  using generateCells_play [OF assms(1), of row "[0..<GRID_COLS]" cs r'] assms(2)
  by (simp add: generateRow_def)

lemma shiftUp_play:
  assumes "valuesNonneg g" and "validEngine r" and "shiftUp r g = Some (g', r')"
  shows "valuesNonneg g' \<and> validEngine r'"
proof -
  have len: "GRID_ROWS \<le> length g" using assms(3) by (simp add: shiftUp_def split: if_splits)
  let ?moved = "fold (\<lambda>row newGrid.
                  fold (\<lambda>col newGrid.
                     (case cellAt g row col of
                        Some b \<Rightarrow> setCell newGrid (row - 1) col
                                    (Some (b\<lparr>row_b := row - 1, col_b := col\<rparr>))
                      | None \<Rightarrow> newGrid))
                    [0..<GRID_COLS] newGrid)
                 [1..<GRID_ROWS] createEmptyGrid"
  have cell: "valuesNonneg (case cellAt g row col of
                        Some b \<Rightarrow> setCell h (row - 1) col
                                    (Some (b\<lparr>row_b := row - 1, col_b := col\<rparr>))
                      | None \<Rightarrow> h)"
    if "row < GRID_ROWS" and "valuesNonneg h" for row col h
  proof (cases "cellAt g row col")
    case None
    then show ?thesis using that by simp
  next
    case (Some b)
    have "cellOk (Some b)" using cellOk_cellAt [OF assms(1), of row col] that(1) len Some by simp
    then show ?thesis using Some that(2) by (simp add: valuesNonneg_setCell cellOk_stamp)
  qed
  have moved: "valuesNonneg ?moved"
    by (rule fold_invariant [where P = valuesNonneg], rule valuesNonneg_createEmptyGrid,
        rule fold_invariant [where P = valuesNonneg], assumption, rule cell) simp_all
  obtain bottomRow r1 where gr: "generateRow (GRID_ROWS - 1) r = (bottomRow, r1)"
    by (cases "generateRow (GRID_ROWS - 1) r")
  have br: "list_all cellOk bottomRow" "length bottomRow = GRID_COLS" and v1: "validEngine r1"
    using generateRow_play [OF assms(2) gr] by simp_all
  have "valuesNonneg (fold (\<lambda>col newGrid. setCell newGrid (GRID_ROWS - 1) col (bottomRow ! col))
                        [0..<GRID_COLS] ?moved)"
    by (rule fold_invariant [where P = valuesNonneg], rule moved, rule valuesNonneg_setCell)
       (use br in \<open>simp_all add: list_all_length\<close>)
  then show ?thesis using assms(3) len gr v1 by (simp add: shiftUp_def Let_def)
qed


lemma getTargetSum_play: "validEngine r \<Longrightarrow> validEngine (snd (getTargetSum lvl r))"
  by (simp add: getTargetSum_def Let_def random_def validEngine_def split: prod.splits)

lemma getTargetSum_play_pair:
  "validEngine r \<Longrightarrow> getTargetSum lvl r = (t, r') \<Longrightarrow> validEngine r'"
  using getTargetSum_play [of r lvl] by simp

lemma addRowAfterSuccess_play:
  assumes "valuesNonneg g1" and "validEngine r"
    and "addRowAfterSuccess m r g1 = Some (finalGrid, over, r1)"
  shows "valuesNonneg finalGrid \<and> validEngine r1"
  using assms shiftUp_play [OF assms(1,2)]
  by (auto simp: addRowAfterSuccess_def split: if_splits option.splits bool.splits)

lemma success_play:
  assumes "valuesNonneg (grid s)" and "validEngine r" and "success r s ids = Some (s', r')"
  shows "valuesNonneg (grid s') \<and> validEngine r' \<and> selectedIds s' = []"
proof -
  from assms(3) obtain g1 finalGrid over r1 where
    g1: "applyGravity (removeSelected ids (grid s)) = Some g1" and
    a: "addRowAfterSuccess (mode s) r g1 = Some (finalGrid, over, r1)" and
    s': "grid s' = finalGrid" "selectedIds s' = []" "r' = snd (getTargetSum (level s) r1)"
    by (auto simp: success_def Let_def split: option.splits prod.splits)
  have "valuesNonneg g1"
    using valuesNonneg_removeSelected [OF assms(1)] g1 by (rule valuesNonneg_applyGravity)
  then have "valuesNonneg finalGrid \<and> validEngine r1"
    using assms(2) a by (rule addRowAfterSuccess_play)
  then show ?thesis using s' getTargetSum_play by simp
qed

lemma handleBlockClick_play:
  assumes "valuesNonneg (grid s)" and "validEngine r" and "belowTarget s"
    and "handleBlockClick isPaused r s b = Some (s', r')"
  shows "valuesNonneg (grid s') \<and> validEngine r' \<and> belowTarget s'"
proof (cases "isGameOver s \<or> isPaused")
  case True
  then show ?thesis using assms by (simp add: handleBlockClick_def)
next
  case False
  let ?ids = "toggleId (id_b b) (selectedIds s)"
  let ?total = "currentSum (selectedBlocks (grid s) ?ids)"
  consider (match) "?total = targetSum s" | (above) "targetSum s < ?total" | (below) "?total < targetSum s"
    by linarith
  then show ?thesis
  proof cases
    case match
    then have "success r s ?ids = Some (s', r')"
      using assms(4) False by (simp add: handleBlockClick_def Let_def)
    then show ?thesis using success_play [OF assms(1,2)] by (simp add: belowTarget_def)
  next
    case above
    then show ?thesis using assms False
      by (auto simp: handleBlockClick_def Let_def belowTarget_def)
  next
    case below
    then show ?thesis using assms False
      by (auto simp: handleBlockClick_def Let_def belowTarget_def)
  qed
qed

lemma tickUpdate_play:
  assumes "valuesNonneg (grid s)" and "validEngine r" and "belowTarget s"
    and "tickUpdate r s = Some (s', r')"
  shows "valuesNonneg (grid s') \<and> validEngine r' \<and> belowTarget s'"
  using assms shiftUp_play [OF assms(1,2)]
  by (auto simp: tickUpdate_def belowTarget_def split: option.splits if_splits bool.splits)

lemma run_play:
  assumes "valuesNonneg (grid s)" and "validEngine r" and "belowTarget s"
    and "run es (s, r) = Some (s', r')"
  shows "valuesNonneg (grid s') \<and> validEngine r' \<and> belowTarget s'"
  using assms
proof (induction es arbitrary: s r)
  case Nil
  then show ?case by simp
next
  case (Cons e es)
  from Cons.prems(4) obtain s1 r1 where st: "step e r s = Some (s1, r1)"
    and rest: "run es (s1, r1) = Some (s', r')"
    by (auto split: option.splits)
  have "valuesNonneg (grid s1) \<and> validEngine r1 \<and> belowTarget s1"
  proof (cases e)
    case (BlockClicked p b)
    then show ?thesis using handleBlockClick_play [OF Cons.prems(1-3), of p b s1 r1] st by simp
  next
    case TimerTick
    then show ?thesis using tickUpdate_play [OF Cons.prems(1-3), of s1 r1] st by simp
  qed
  then show ?case using Cons.IH rest by blast
qed

lemma initGame_play:
  assumes "validEngine r"
  shows "valuesNonneg (grid (fst (initGame m saved r))) \<and> validEngine (snd (initGame m saved r))
       \<and> belowTarget (fst (initGame m saved r))"
proof -
  let ?step = "\<lambda>i (g, r).
               (let rowIdx = GRID_ROWS - 1 - i;
                    (newRow, r') = generateRow rowIdx r
                in (fold (\<lambda>j g. setCell g rowIdx j (newRow ! j)) [0..<GRID_COLS] g, r'))"
  let ?P = "\<lambda>gr. valuesNonneg (fst gr) \<and> validEngine (snd gr)"
  have step: "?P (?step i gr)" if "?P gr" for i gr
  proof -
    obtain g r0 where gr: "gr = (g, r0)" by (cases gr)
    obtain newRow r1 where nr: "generateRow (GRID_ROWS - 1 - i) r0 = (newRow, r1)"
      by (cases "generateRow (GRID_ROWS - 1 - i) r0")
    have row: "list_all cellOk newRow" "length newRow = GRID_COLS" and v1: "validEngine r1"
      using generateRow_play [OF _ nr] that gr by simp_all
    have "valuesNonneg (fold (\<lambda>j g. setCell g (GRID_ROWS - 1 - i) j (newRow ! j)) [0..<GRID_COLS] g)"
      by (rule fold_invariant [where P = valuesNonneg])
         (use that gr row in \<open>simp_all add: valuesNonneg_setCell list_all_length\<close>)
    then show ?thesis using gr nr v1 by (simp add: Let_def)
  qed
  have "?P (fold ?step [0..<INITIAL_ROWS] (createEmptyGrid, r))"
    by (rule fold_invariant [where P = ?P]) (use assms step in \<open>simp_all add: valuesNonneg_createEmptyGrid\<close>)
  then show ?thesis
    by (auto simp: initGame_def Let_def belowTarget_def split: prod.splits
        intro: getTargetSum_play_pair)
qed

lemma currentSum_sum_list: "currentSum bs = sum_list (map value_b bs)"
proof -
  have "foldl (\<lambda>acc b. acc + value_b b) a bs = a + sum_list (map value_b bs)" for a
    by (induction bs arbitrary: a) simp_all
  then show ?thesis by (simp add: currentSum_def)
qed

lemma findBlock_nonneg:
  assumes "valuesNonneg g" and "findBlock i g = Some b"
  shows "0 \<le> value_b b"
  using assms
proof (induction g)
  case Nil
  then show ?case by simp
next
  case (Cons row rows)
  show ?case
  proof (cases "findInRow i row")
    case None
    then show ?thesis using Cons by (simp add: valuesNonneg_def)
  next
    case (Some found)
    then have "found = b" using Cons.prems(2) by simp
    moreover have "Some found \<in> set row"
      using Some by (auto simp: findInRow_def find_Some_iff split: option.splits) (metis nth_mem)
    ultimately show ?thesis using Cons.prems(1) by (auto simp: valuesNonneg_def list_all_iff cellOk_def)
  qed
qed

lemma selectedBlocks_Cons:
  "selectedBlocks g (i # ids) =
     (case findBlock i g of Some b \<Rightarrow> b # selectedBlocks g ids | None \<Rightarrow> selectedBlocks g ids)"
  by (simp add: selectedBlocks_def split: option.splits)

lemma currentSum_filter_le:
  assumes "valuesNonneg g"
  shows "currentSum (selectedBlocks g (filter P ids)) \<le> currentSum (selectedBlocks g ids)"
proof (induction ids)
  case Nil
  then show ?case by simp
next
  case (Cons i ids)
  show ?case
  proof (cases "findBlock i g")
    case None
    then show ?thesis using Cons by (simp add: selectedBlocks_Cons)
  next
    case (Some b)
    then have "0 \<le> value_b b" using assms findBlock_nonneg by blast
    then show ?thesis using Cons Some by (simp add: selectedBlocks_Cons currentSum_sum_list)
  qed
qed

lemma deselect_below_target_in_play:
  assumes "validEngine r" and "run es (initGame m saved r) = Some (s, r')"
    and "id_b b \<in> set (selectedIds s)"
  shows "currentSum (selectedBlocks (grid s) (filter (\<lambda>i. i \<noteq> id_b b) (selectedIds s))) < targetSum s"
proof -
  obtain s0 r0 where i: "initGame m saved r = (s0, r0)" by (cases "initGame m saved r")
  have "valuesNonneg (grid s0) \<and> validEngine r0 \<and> belowTarget s0"
    using initGame_play [OF assms(1), of m saved] i by simp
  then have inv: "valuesNonneg (grid s) \<and> belowTarget s"
    using run_play [of s0 r0 es s r'] assms(2) i by simp
  then have "currentSum (selectedBlocks (grid s) (selectedIds s)) < targetSum s"
    using assms(3) by (auto simp: belowTarget_def)
  moreover have "currentSum (selectedBlocks (grid s) (filter (\<lambda>i. i \<noteq> id_b b) (selectedIds s)))
               \<le> currentSum (selectedBlocks (grid s) (selectedIds s))"
    using inv by (intro currentSum_filter_le) simp
  ultimately show ?thesis by linarith
qed

text \<open>
  Claim C10, as amended. The sum check follows the toggle on a deselect as on a select: on
  any state, not over and not paused, in which the selected ids other than that of the
  clicked block sum to the target, the click takes the success branch with the remaining
  ids. The grid \<open>removed\<close> has an empty cell where the old grid has a block whose id remains
  selected and the old cell everywhere else; gravity and the classic row are applied to
  it, the score and the combo grow and the selection is cleared. No state of play is such
  a state: in a run from \<open>initGame\<close> on an engine whose draws are in \<open>[0, 1)\<close>, the selected
  ids without that of any selected block sum to less than the target, so a deselect never
  completes a match.
\<close>

theorem deselect_runs_sum_check:
  "(\<not> isGameOver s \<and> wellShaped (grid s) \<and> id_b b \<in> set (selectedIds s)
      \<and> currentSum (selectedBlocks (grid s) (filter (\<lambda>i. i \<noteq> id_b b) (selectedIds s))) = targetSum s
    \<longrightarrow> (\<exists>removed gravityGrid s' r'.
           wellShaped removed
         \<and> (\<forall>row < GRID_ROWS. \<forall>col < GRID_COLS.
               removed ! row ! col =
                 (case grid s ! row ! col of
                    None \<Rightarrow> None
                  | Some blk \<Rightarrow>
                      if id_b blk \<in> set (filter (\<lambda>i. i \<noteq> id_b b) (selectedIds s)) then None
                      else Some blk))
         \<and> applyGravity removed = Some gravityGrid
         \<and> handleBlockClick False r s b = Some (s', r')
         \<and> (mode s = Classic \<and> checkGameOver gravityGrid = Some True \<longrightarrow>
              grid s' = gravityGrid \<and> isGameOver s')
         \<and> (mode s = Classic \<and> checkGameOver gravityGrid = Some False \<longrightarrow>
              (\<exists>r1. shiftUp r gravityGrid = Some (grid s', r1)
                  \<and> checkGameOver (grid s') = Some (isGameOver s')))
         \<and> (mode s = Time \<longrightarrow> grid s' = gravityGrid \<and> \<not> isGameOver s')
         \<and> selectedIds s' = []
         \<and> score s' = score s
              + targetSum s * int (length (filter (\<lambda>i. i \<noteq> id_b b) (selectedIds s))) * (combo s + 1)
         \<and> combo s' = combo s + 1))
   \<and> (validEngine e \<and> run es (initGame m saved e) = Some (p, e')
        \<and> id_b (c :: Block) \<in> set (selectedIds p)
    \<longrightarrow> currentSum (selectedBlocks (grid p) (filter (\<lambda>i. i \<noteq> id_b c) (selectedIds p)))
          < targetSum p)"
proof (intro conjI impI)
  assume a: "\<not> isGameOver s \<and> wellShaped (grid s) \<and> id_b b \<in> set (selectedIds s)
      \<and> currentSum (selectedBlocks (grid s) (filter (\<lambda>i. i \<noteq> id_b b) (selectedIds s))) = targetSum s"
  let ?rest = "filter (\<lambda>i. i \<noteq> id_b b) (selectedIds s)"
  let ?removed = "removeSelected ?rest (grid s)"
  have w0: "wellShaped (grid s)" using a by simp
  have t: "toggleId (id_b b) (selectedIds s) = ?rest" using a by (simp add: toggleId_def)
  obtain g1 finalGrid over r1 s' r' where
    g1: "applyGravity ?removed = Some g1" and
    ar: "addRowAfterSuccess (mode s) r g1 = Some (finalGrid, over, r1)" and
    s: "success r s ?rest = Some (s', r')" and
    gs: "grid s' = finalGrid" and os: "isGameOver s' = over" and
    f: "selectedIds s' = []"
       "score s' = score s + targetSum s * int (length ?rest) * (combo s + 1)"
       "combo s' = combo s + 1"
    using success_result [OF w0, of ?rest r] by fastforce
  have h: "handleBlockClick False r s b = Some (s', r')"
    using handleBlockClick_match [of s b r] a s unfolding t by simp
  have w: "wellShaped ?removed" using w0 by (rule wellShaped_removeSelected)
  have c: "\<forall>row < GRID_ROWS. \<forall>col < GRID_COLS.
               ?removed ! row ! col =
                 (case grid s ! row ! col of
                    None \<Rightarrow> None
                  | Some blk \<Rightarrow> if id_b blk \<in> set ?rest then None else Some blk)"
    using w0 by (rule removeSelected_cells_wellShaped)
  have rest: "(mode s = Classic \<and> checkGameOver g1 = Some True \<longrightarrow>
              grid s' = g1 \<and> isGameOver s')
         \<and> (mode s = Classic \<and> checkGameOver g1 = Some False \<longrightarrow>
              (\<exists>r1. shiftUp r g1 = Some (grid s', r1)
                  \<and> checkGameOver (grid s') = Some (isGameOver s')))
         \<and> (mode s = Time \<longrightarrow> grid s' = g1 \<and> \<not> isGameOver s')"
    using gs os addRowAfterSuccess_cases [OF ar] by auto
  show "\<exists>removed gravityGrid s' r'.
           wellShaped removed
         \<and> (\<forall>row < GRID_ROWS. \<forall>col < GRID_COLS.
               removed ! row ! col =
                 (case grid s ! row ! col of
                    None \<Rightarrow> None
                  | Some blk \<Rightarrow>
                      if id_b blk \<in> set ?rest then None
                      else Some blk))
         \<and> applyGravity removed = Some gravityGrid
         \<and> handleBlockClick False r s b = Some (s', r')
         \<and> (mode s = Classic \<and> checkGameOver gravityGrid = Some True \<longrightarrow>
              grid s' = gravityGrid \<and> isGameOver s')
         \<and> (mode s = Classic \<and> checkGameOver gravityGrid = Some False \<longrightarrow>
              (\<exists>r1. shiftUp r gravityGrid = Some (grid s', r1)
                  \<and> checkGameOver (grid s') = Some (isGameOver s')))
         \<and> (mode s = Time \<longrightarrow> grid s' = gravityGrid \<and> \<not> isGameOver s')
         \<and> selectedIds s' = []
         \<and> score s' = score s + targetSum s * int (length ?rest) * (combo s + 1)
         \<and> combo s' = combo s + 1"
    using w c g1 h rest f by blast
next
  assume "validEngine e \<and> run es (initGame m saved e) = Some (p, e')
        \<and> id_b c \<in> set (selectedIds p)"
  then show "currentSum (selectedBlocks (grid p) (filter (\<lambda>i. i \<noteq> id_b c) (selectedIds p)))
          < targetSum p"
    using deselect_below_target_in_play by blast
qed

theorem deselect_runs_sum_check_witness:
  "\<not> isGameOver (demoState Time [''a'', ''c'', ''b''])
   \<and> wellShaped (grid (demoState Time [''a'', ''c'', ''b'']))
   \<and> id_b (mkBlock ''c'' 3 9 2) \<in> set (selectedIds (demoState Time [''a'', ''c'', ''b'']))
   \<and> currentSum (selectedBlocks (grid (demoState Time [''a'', ''c'', ''b'']))
        (filter (\<lambda>i. i \<noteq> id_b (mkBlock ''c'' 3 9 2)) (selectedIds (demoState Time [''a'', ''c'', ''b'']))))
       = targetSum (demoState Time [''a'', ''c'', ''b''])
   \<and> (\<exists>removed s' r'.
         removed ! 9 ! 0 = None \<and> removed ! 9 ! 1 = None
       \<and> removed ! 9 ! 2 = Some (mkBlock ''c'' 3 9 2)
       \<and> handleBlockClick False (drawsFrom []) (demoState Time [''a'', ''c'', ''b''])
                  (mkBlock ''c'' 3 9 2) = Some (s', r')
       \<and> applyGravity removed = Some (grid s')
       \<and> selectedIds s' = [] \<and> score s' = 20 \<and> combo s' = 1)
   \<and> validEngine (drawsFrom [])
   \<and> (\<exists>p e'. run [BlockClicked False (mkBlock [] 1 9 0)] (initGame Classic None (drawsFrom []))
                 = Some (p, e')
         \<and> id_b (mkBlock [] 1 9 0) \<in> set (selectedIds p)
         \<and> currentSum (selectedBlocks (grid p)
              (filter (\<lambda>i. i \<noteq> id_b (mkBlock [] 1 9 0)) (selectedIds p))) < targetSum p)"
proof -
  let ?s = "demoState Time [''a'', ''c'', ''b'']" and ?b = "mkBlock ''c'' 3 9 2"
  let ?k = "mkBlock [] 1 9 0"
  have h1: "\<not> isGameOver ?s" by (simp add: demoState_def)
  have h2: "wellShaped (grid ?s)" by code_simp
  have h3: "id_b ?b \<in> set (selectedIds ?s)" by code_simp
  have fi: "filter (\<lambda>i. i \<noteq> id_b ?b) (selectedIds ?s) = [''a'', ''b'']" by code_simp
  have h4: "currentSum (selectedBlocks (grid ?s) (filter (\<lambda>i. i \<noteq> id_b ?b) (selectedIds ?s))) = targetSum ?s"
    by code_simp
  have f: "targetSum ?s = 10" "combo ?s = 0" "score ?s = 0" "mode ?s = Time" "grid ?s = demoGrid"
    by (simp_all add: demoState_def)
  have cells: "demoGrid ! 9 ! 0 = Some (mkBlock ''a'' 4 9 0)" "demoGrid ! 9 ! 1 = Some (mkBlock ''b'' 6 9 1)"
    "demoGrid ! 9 ! 2 = Some (mkBlock ''c'' 3 9 2)"
    by code_simp+
  have ids: "id_b (mkBlock ''a'' 4 9 0) = ''a''" "id_b (mkBlock ''b'' 6 9 1) = ''b''"
    "id_b (mkBlock ''c'' 3 9 2) = ''c''"
    by (simp_all add: mkBlock_def)
  have v: "validEngine (drawsFrom [])"
    by (simp add: validEngine_def drawsFrom_def validDraw_def)
  have "map_option (\<lambda>sr. selectedIds (fst sr))
          (run [BlockClicked False ?k] (initGame Classic None (drawsFrom []))) = Some [[]]"
    by code_simp
  then obtain p e' where
    rn: "run [BlockClicked False ?k] (initGame Classic None (drawsFrom [])) = Some (p, e')" and
    sel: "selectedIds p = [[]]"
    by auto
  have k: "id_b ?k \<in> set (selectedIds p)" using sel by (simp add: mkBlock_def)
  note inst = deselect_runs_sum_check
    [of ?s ?b "drawsFrom []" "drawsFrom []" "[BlockClicked False ?k]" Classic None p e' ?k]
  from inst h1 h2 h3 h4 obtain removed gravityGrid s' r' where
    c: "\<forall>row < GRID_ROWS. \<forall>col < GRID_COLS.
               removed ! row ! col =
                 (case demoGrid ! row ! col of
                    None \<Rightarrow> None
                  | Some blk \<Rightarrow> if id_b blk \<in> set [''a'', ''b''] then None else Some blk)" and
    ag: "applyGravity removed = Some gravityGrid" and
    hb: "handleBlockClick False (drawsFrom []) ?s ?b = Some (s', r')" and
    tm: "grid s' = gravityGrid" and
    r: "selectedIds s' = []" "score s' = 20" "combo s' = 1"
    unfolding fi f by auto
  have rc: "removed ! 9 ! 0 = None" "removed ! 9 ! 1 = None"
    "removed ! 9 ! 2 = Some (mkBlock ''c'' 3 9 2)"
    using c cells ids by (simp_all add: GRID_ROWS_def GRID_COLS_def)
  have below: "currentSum (selectedBlocks (grid p) (filter (\<lambda>i. i \<noteq> id_b ?k) (selectedIds p)))
          < targetSum p"
    using inst v rn k by blast
  show ?thesis using h1 h2 h3 h4 rc hb ag tm r v rn k below by blast
qed

text \<open>
  The claim C10 as stated fails in its first sentence: no run from \<open>initGame\<close> reaches a
  state in which deselecting a block completes a match.
\<close>

theorem deselect_never_completes_match_in_play:
  "\<not> (\<exists>e es m saved p e' (c :: Block).
         validEngine e \<and> run es (initGame m saved e) = Some (p, e')
       \<and> \<not> isGameOver p \<and> id_b c \<in> set (selectedIds p)
       \<and> currentSum (selectedBlocks (grid p) (filter (\<lambda>i. i \<noteq> id_b c) (selectedIds p)))
           = targetSum p)"
proof
  assume "\<exists>e es m saved p e' (c :: Block).
         validEngine e \<and> run es (initGame m saved e) = Some (p, e')
       \<and> \<not> isGameOver p \<and> id_b c \<in> set (selectedIds p)
       \<and> currentSum (selectedBlocks (grid p) (filter (\<lambda>i. i \<noteq> id_b c) (selectedIds p)))
           = targetSum p"
  then obtain e es m saved p e' and c :: Block where
    f1: "validEngine e" and f2: "run es (initGame m saved e) = Some (p, e')"
    and f3: "id_b c \<in> set (selectedIds p)"
    and eq: "currentSum (selectedBlocks (grid p) (filter (\<lambda>i. i \<noteq> id_b c) (selectedIds p)))
           = targetSum p"
    by auto
  have "currentSum (selectedBlocks (grid p) (filter (\<lambda>i. i \<noteq> id_b c) (selectedIds p)))
           < targetSum p"
    using f1 f2 f3 by (rule deselect_below_target_in_play)
  with eq show False by simp
qed

end
